theory Spec2Isabelle
  imports Main "HOL-Library.Sublist"
begin

section \<open>The tunnel client of selfTunnel.js as an event-driven state machine\<close>

text \<open>
  The module is single threaded: every piece of code runs as a callback of a socket,
  a timer or a call of the public interface. Each callback of the source is a function
  on the state below, and \<open>step\<close> dispatches one event to the callbacks that listen to it.
  An exception that leaves a callback is the value \<open>Inl\<close>.

  Buffers are byte lists. A JavaScript string is kept as the byte list of its UTF-8
  encoding, so \<open>req.toString()\<close> and \<open>Buffer.from(str)\<close> are the identity; this is exact
  for the tests \<open>startsWith('{')\<close> and \<open>startsWith('->')\<close>, and for ASCII text throughout
  (\<open>message.length\<close> counts UTF-16 units, which only the debug preview uses).

  What is taken from the platform as it is:
  \<^item> The code after an \<open>await\<close> runs as a microtask, before the next event; it is part of
    the step of the callback that settles the promise.
  \<^item> \<open>new WebSocket(url)\<close> and \<open>net.connect\<close> return their objects (the URL and the port
    are well formed); a failure to connect arrives later as an event.
  \<^item> A call on a WebSocket (\<open>send\<close>, \<open>ping\<close>, \<open>close\<close>) is recorded as an effect. The
    ready state inside the library is not modelled; on a connection that is no longer
    open the library hands the failure of \<open>send\<close> to the callback, which only logs it.
  \<^item> The \<open>destroyed\<close> flag of a local socket changes with the events 'error' and 'close'
    and with \<open>destroy()\<close>, each socket emits 'error' before its 'close', and no event
    reaches a listener that has been removed.
  \<open>tunnel.pause\<close> and \<open>tunnel.resume\<close> only call \<open>send\<close>; they are not part of the model.
\<close>

subsection \<open>Values of the platform\<close>

type_synonym buffer = string

datatype js_value =
    JUndefined
  | JNull
  | JBool bool
  | JNum int
  | JStr string
  | JArr "js_value list"
  | JObj "(string \<times> js_value) list"

datatype js_error = TypeError | SyntaxError | Error string

text \<open>
  \<open>JSON.parse\<close> and \<open>Buffer.from\<close> on an array or object belong to Node, not to this
  repository; they are parameters. \<open>None\<close> is a throw (SyntaxError, TypeError).
\<close>

record platform =
  JSON_parse :: "string \<Rightarrow> js_value option"
  Buffer_from_object :: "js_value \<Rightarrow> buffer option"

text \<open>Property access \<open>v.k\<close> throws a TypeError exactly when \<open>v\<close> is null or undefined;
  otherwise it gives the value of the property, undefined when there is none. An object
  is the list of its own properties, each key once.\<close>

definition nullish :: "js_value \<Rightarrow> bool" where
  "nullish v = (v = JNull \<or> v = JUndefined)"

fun field :: "js_value \<Rightarrow> string \<Rightarrow> js_value" where
  "field (JObj kvs) k = (case map_of kvs k of None \<Rightarrow> JUndefined | Some v \<Rightarrow> v)"
| "field v k = JUndefined"

fun truthy :: "js_value \<Rightarrow> bool" where
  "truthy JUndefined = False"
| "truthy JNull = False"
| "truthy (JBool b) = b"
| "truthy (JNum n) = (n \<noteq> 0)"
| "truthy (JStr s) = (s \<noteq> [])"
| "truthy v = True"

text \<open>\<open>Buffer.from(v)\<close>: the bytes of a string; a TypeError on undefined, null, numbers
  and booleans.\<close>

fun Buffer_from :: "platform \<Rightarrow> js_value \<Rightarrow> js_error + buffer" where
  "Buffer_from P (JStr s) = Inr s"
| "Buffer_from P (JArr xs) =
     (case Buffer_from_object P (JArr xs) of None \<Rightarrow> Inl TypeError | Some b \<Rightarrow> Inr b)"
| "Buffer_from P (JObj kvs) =
     (case Buffer_from_object P (JObj kvs) of None \<Rightarrow> Inl TypeError | Some b \<Rightarrow> Inr b)"
| "Buffer_from P v = Inl TypeError"

text \<open>\<open>buf.indexOf(value)\<close> for a Buffer \<open>value\<close>: the first offset at which \<open>value\<close> occurs
  in \<open>buf\<close>, or -1. An empty \<open>value\<close> is found at offset 0.\<close>

fun indexOf_at :: "nat \<Rightarrow> buffer \<Rightarrow> buffer \<Rightarrow> int" where
  "indexOf_at i [] val = (if val = [] then int i else -1)"
| "indexOf_at i (b # bs) val =
     (if prefix val (b # bs) then int i else indexOf_at (Suc i) bs val)"

definition indexOf :: "buffer \<Rightarrow> buffer \<Rightarrow> int" where
  "indexOf buf val = indexOf_at 0 buf val"

text \<open>\<open>Buffer.concat([...responseChunks, tunnel.eofMarker])\<close>: a TypeError when the marker
  is null.\<close>

fun Buffer_concat_eof :: "buffer list \<Rightarrow> buffer option \<Rightarrow> js_error + buffer" where
  "Buffer_concat_eof chunks None = Inl TypeError"
| "Buffer_concat_eof chunks (Some e) = Inr (concat chunks @ e)"

subsection \<open>What the client does to the outside\<close>

datatype console_arg = Str string | Num int | Val js_value | Msg js_error

text \<open>A template literal is kept as the list of its parts, \<open>error.message\<close> as \<open>Msg\<close>.\<close>

datatype effect =
    Ws_new nat string
  | Ws_send_text nat js_value
  | Ws_send_binary nat buffer
  | Ws_ping nat
  | Ws_close nat
  | Net_connect nat int
  | Sock_setKeepAlive nat
  | Sock_write nat buffer
  | Sock_destroy nat
  | Console_log "console_arg list"
  | Console_error "console_arg list"

subsection \<open>State\<close>

text \<open>A local socket object: its \<open>destroyed\<close> flag and the listeners attached to it.\<close>

record socket =
  destroyed :: bool
  connect_cb :: bool
  base_listeners :: bool
  promise :: "nat option"
  exchange :: "nat list"

text \<open>
  \<open>connect_cb\<close>: the callback given to \<open>net.connect\<close> is still waiting for 'connect'.
  \<open>base_listeners\<close>: the 'error' and 'close' listeners of \<open>ensureLocalConnection\<close>.
  \<open>promise\<close>: the call of \<open>processRequestQueue\<close> that awaits the promise those callbacks
  settle, while it is pending. \<open>exchange\<close>: the calls whose \<open>onData\<close>, \<open>onEnd\<close> and
  \<open>onError\<close> are attached, in the order of registration.
\<close>

text \<open>A call of the async function \<open>processRequestQueue\<close>, suspended at an \<open>await\<close>, with
  its local variables \<open>reqBuffer\<close>, \<open>socket\<close>, \<open>responseChunks\<close>, \<open>responseComplete\<close>,
  \<open>chunksLast\<close>.\<close>

datatype invocation =
    Returned
  | Await_connect buffer
  | Await_checkConnection buffer
  | Await_response nat "buffer list" bool nat

record state =
  url :: string
  auth_domain :: js_value
  auth_secret :: js_value
  auth_device :: js_value
  suspendCommand :: "buffer option"
  eofMarker :: "buffer option"
  pingIntervalId :: "nat option"
  isPrimary :: js_value
  ws :: "nat option"
  alive :: bool
  debug :: bool
  isPublic :: bool
  localPort :: int
  pingInterval :: int
  autoConnectInterval :: int
  has_app :: bool
  localSocket :: "nat option"
  requestQueue :: "buffer list"
  connecting :: bool
  processing :: bool
  sockets :: "nat \<Rightarrow> socket"
  next_socket :: nat
  next_ws :: nat
  invocations :: "nat \<Rightarrow> invocation"
  next_invocation :: nat
  reconnect_timers :: nat
  immediates :: nat
  trace :: "effect list"

text \<open>
  The fields up to \<open>autoConnectInterval\<close> are those of the object \<open>tunnel\<close>;
  \<open>has_app\<close>, \<open>localSocket\<close>, \<open>requestQueue\<close>, \<open>connecting\<close> and \<open>processing\<close> are the
  variables of the closure. \<open>pingIntervalId = Some w\<close> is the interval timer whose
  callback closes over the connection \<open>w\<close>. The rest is the run time: the socket objects,
  the suspended calls of \<open>processRequestQueue\<close>, the pending
  \<open>setTimeout(connectToTunnel, ...)\<close> and \<open>setImmediate(processRequestQueue)\<close>, and the
  effects so far.
\<close>

definition emit :: "effect \<Rightarrow> state \<Rightarrow> state" where
  "emit e s = s\<lparr>trace := trace s @ [e]\<rparr>"

definition debug_log :: "console_arg list \<Rightarrow> state \<Rightarrow> state" where
  "debug_log args s = (if debug s then emit (Console_log args) s else s)"

definition live :: "state \<Rightarrow> nat option \<Rightarrow> bool" where
  "live s l = (case l of None \<Rightarrow> False | Some k \<Rightarrow> \<not> destroyed (sockets s k))"

subsection \<open>cleanup\<close>

text \<open>\<open>localSocket.removeAllListeners(); localSocket.destroy();\<close> on the socket object.\<close>

definition destroy_socket :: "nat \<Rightarrow> state \<Rightarrow> state" where
  "destroy_socket k s =
     emit (Sock_destroy k)
       (s\<lparr>sockets := (sockets s)(k := (sockets s k)\<lparr>destroyed := True, connect_cb := False,
            base_listeners := False, exchange := []\<rparr>)\<rparr>)"

definition cleanup :: "state \<Rightarrow> state" where
  "cleanup s =
     (let s1 = (if pingIntervalId s \<noteq> None then s\<lparr>pingIntervalId := None\<rparr> else s);
          s2 = (case localSocket s1 of
                  None \<Rightarrow> s1
                | Some k \<Rightarrow>
                    if \<not> destroyed (sockets s1 k)
                    then (destroy_socket k s1)\<lparr>localSocket := None\<rparr>
                    else s1)
      in s2\<lparr>requestQueue := [], connecting := False, processing := False, alive := False\<rparr>)"

subsection \<open>The forwarding loop\<close>

text \<open>\<open>handleTunnelResponse\<close>: \<open>tunnel.ws.send\<close> is a TypeError when \<open>tunnel.ws\<close> is null.\<close>

definition handleTunnelResponse :: "buffer \<Rightarrow> state \<Rightarrow> js_error + state" where
  "handleTunnelResponse resBuffer s =
     (case ws s of
        None \<Rightarrow> Inl TypeError
      | Some w \<Rightarrow>
          Inr (debug_log [Str ''Out:'', Num (int (length resBuffer)), Str ('' bytes'' @ [CHR 0x0A]),
                          Str (take 64 resBuffer), Str ''...'']
                 (emit (Ws_send_binary w resBuffer) s)))"

text \<open>
  The body of the loop after \<open>const socket = await ensureLocalConnection()\<close> has given
  the socket \<open>k\<close>: the three listeners are attached, the request is written, and the first
  \<open>checkComplete()\<close> finds no chunk yet and sets its timer.
\<close>

definition start_exchange :: "nat \<Rightarrow> nat \<Rightarrow> buffer \<Rightarrow> state \<Rightarrow> state" where
  "start_exchange i k reqBuffer s =
     (emit (Sock_write k reqBuffer)
        (s\<lparr>sockets := (sockets s)(k := (sockets s k)\<lparr>exchange := exchange (sockets s k) @ [i]\<rparr>)\<rparr>))
       \<lparr>invocations := (invocations s)(i := Await_response k [] False 0)\<rparr>"

text \<open>
  The last branch of \<open>ensureLocalConnection\<close>: \<open>connecting = true\<close>, a new socket from
  \<open>net.connect\<close> with its connect callback and its 'error' and 'close' listeners. The
  caller stays suspended until one of them settles the promise.
\<close>

definition new_connection :: "nat \<Rightarrow> buffer \<Rightarrow> state \<Rightarrow> state" where
  "new_connection i reqBuffer s =
     (let k = next_socket s
      in (emit (Net_connect k (localPort s))
            (s\<lparr>connecting := True, localSocket := Some k, next_socket := Suc k,
               sockets := (sockets s)(k := \<lparr>destroyed = False, connect_cb = True,
                  base_listeners = True, promise = Some i, exchange = []\<rparr>)\<rparr>))
           \<lparr>invocations := (invocations s)(i := Await_connect reqBuffer)\<rparr>)"

text \<open>
  One pass from the head of \<open>while (requestQueue.length > 0)\<close> to the next \<open>await\<close> that
  suspends, or to the return. \<open>ensureLocalConnection\<close> is inlined: a live cached socket
  resolves at once; while \<open>connecting\<close>, \<open>checkConnection\<close> polls; otherwise a new socket
  is created with its connect callback and its 'error' and 'close' listeners.
\<close>

definition loop_head :: "nat \<Rightarrow> state \<Rightarrow> state" where
  "loop_head i s =
     (case requestQueue s of
        [] \<Rightarrow>
          (let s1 = s\<lparr>processing := False, invocations := (invocations s)(i := Returned)\<rparr>
           in if requestQueue s1 \<noteq> [] then s1\<lparr>immediates := Suc (immediates s1)\<rparr> else s1)
      | reqBuffer # rest \<Rightarrow>
          (let s1 = debug_log [Str ''IN:'', Num (int (length reqBuffer)), Str ('' bytes'' @ [CHR 0x0A]),
                               Str (take 64 reqBuffer), Str ''...'']
                      (s\<lparr>requestQueue := rest\<rparr>)
           in case localSocket s1 of
                Some k \<Rightarrow>
                  if \<not> destroyed (sockets s1 k) then start_exchange i k reqBuffer s1
                  else if connecting s1
                  then s1\<lparr>invocations := (invocations s1)(i := Await_checkConnection reqBuffer)\<rparr>
                  else new_connection i reqBuffer s1
              | None \<Rightarrow>
                  if connecting s1
                  then s1\<lparr>invocations := (invocations s1)(i := Await_checkConnection reqBuffer)\<rparr>
                  else new_connection i reqBuffer s1))"

text \<open>The \<open>catch\<close> of the loop body: log, then the next pass.\<close>

definition catch_error :: "nat \<Rightarrow> js_error \<Rightarrow> state \<Rightarrow> state" where
  "catch_error i err s =
     loop_head i (emit (Console_error [Str ''Error processing request:'', Msg err]) s)"

text \<open>The promise of \<open>ensureLocalConnection\<close> resolves with \<open>v\<close>, the value of
  \<open>localSocket\<close> at that moment. On null, \<open>socket.on\<close> is a TypeError inside the \<open>try\<close>.\<close>

definition resolve_connection :: "nat \<Rightarrow> buffer \<Rightarrow> nat option \<Rightarrow> state \<Rightarrow> state" where
  "resolve_connection i reqBuffer v s =
     (case v of
        None \<Rightarrow> catch_error i TypeError s
      | Some k \<Rightarrow> start_exchange i k reqBuffer s)"

text \<open>\<open>cleanupSocketListeners\<close> of the call \<open>i\<close> on its socket \<open>k\<close>.\<close>

definition cleanupSocketListeners :: "nat \<Rightarrow> nat \<Rightarrow> state \<Rightarrow> state" where
  "cleanupSocketListeners i k s =
     s\<lparr>sockets := (sockets s)(k := (sockets s k)\<lparr>exchange := removeAll i (exchange (sockets s k))\<rparr>)\<rparr>"

text \<open>The response is finished: listeners off, the marker appended, the response sent.
  Used by \<open>onEnd\<close> and by the quiet branch of \<open>checkComplete\<close>.\<close>

definition complete_response :: "nat \<Rightarrow> nat \<Rightarrow> buffer list \<Rightarrow> nat \<Rightarrow> state \<Rightarrow> js_error + state" where
  "complete_response i k chunks chunksLast s =
     (let s1 = cleanupSocketListeners i k s
      in case Buffer_concat_eof chunks (eofMarker s1) of
           Inl e \<Rightarrow> Inl e
         | Inr response \<Rightarrow>
             handleTunnelResponse response
               (s1\<lparr>invocations := (invocations s1)(i := Await_response k chunks True chunksLast)\<rparr>))"

text \<open>
  A 10 ms timer of the call \<open>i\<close> fires: \<open>checkConnection\<close> while it waits for a connection
  attempt of someone else, \<open>checkComplete\<close> while it waits for the response.
\<close>

definition poll_timer :: "nat \<Rightarrow> state \<Rightarrow> js_error + state" where
  "poll_timer i s =
     (case invocations s i of
        Await_checkConnection reqBuffer \<Rightarrow>
          if live s (localSocket s) then Inr (resolve_connection i reqBuffer (localSocket s) s)
          else if \<not> connecting s then Inr (catch_error i (Error ''Connection failed'') s)
          else Inr s
      | Await_response k chunks responseComplete chunksLast \<Rightarrow>
          if responseComplete then Inr (loop_head i s)
          else if chunksLast = 0 \<or> chunksLast \<noteq> length chunks
          then Inr (s\<lparr>invocations := (invocations s)(i := Await_response k chunks False (length chunks))\<rparr>)
          else (case complete_response i k chunks chunksLast s of
                  Inl e \<Rightarrow> Inl e
                | Inr s1 \<Rightarrow> Inr (loop_head i s1))
      | _ \<Rightarrow> Inr s)"

subsection \<open>Events of the local socket\<close>

text \<open>The listeners of one event run in the order of registration, over the listeners
  attached when the event is emitted; a throw ends the emission.\<close>

fun run_listeners :: "(nat \<Rightarrow> state \<Rightarrow> js_error + state) \<Rightarrow> nat list \<Rightarrow> state \<Rightarrow> js_error + state" where
  "run_listeners f [] s = Inr s"
| "run_listeners f (i # is) s =
     (case f i s of Inl e \<Rightarrow> Inl e | Inr s1 \<Rightarrow> run_listeners f is s1)"

definition onData :: "buffer \<Rightarrow> nat \<Rightarrow> state \<Rightarrow> js_error + state" where
  "onData chunk i s =
     (case invocations s i of
        Await_response k chunks responseComplete chunksLast \<Rightarrow>
          Inr (s\<lparr>invocations := (invocations s)
                 (i := Await_response k (chunks @ [chunk]) responseComplete chunksLast)\<rparr>)
      | _ \<Rightarrow> Inr s)"

definition onEnd :: "nat \<Rightarrow> state \<Rightarrow> js_error + state" where
  "onEnd i s =
     (case invocations s i of
        Await_response k chunks responseComplete chunksLast \<Rightarrow>
          if \<not> responseComplete then complete_response i k chunks chunksLast s else Inr s
      | _ \<Rightarrow> Inr s)"

definition onError :: "string \<Rightarrow> nat \<Rightarrow> state \<Rightarrow> js_error + state" where
  "onError msg i s =
     (case invocations s i of
        Await_response k chunks responseComplete chunksLast \<Rightarrow>
          if \<not> responseComplete
          then Inr (emit (Console_error [Str ''Local socket error:'', Msg (Error msg)])
                 ((cleanupSocketListeners i k s)
                    \<lparr>invocations := (invocations s)(i := Await_response k chunks True chunksLast),
                     localSocket := None\<rparr>))
          else Inr s
      | _ \<Rightarrow> Inr s)"

definition local_data :: "nat \<Rightarrow> buffer \<Rightarrow> state \<Rightarrow> js_error + state" where
  "local_data k chunk s = run_listeners (onData chunk) (exchange (sockets s k)) s"

definition local_end :: "nat \<Rightarrow> state \<Rightarrow> js_error + state" where
  "local_end k s = run_listeners onEnd (exchange (sockets s k)) s"

text \<open>
  'connect': the callback of \<open>net.connect\<close>, once. It works on the variable
  \<open>localSocket\<close>, not on the socket that connected: \<open>localSocket.setKeepAlive\<close> is a
  TypeError when the variable is null, and the promise resolves with the variable.
\<close>

definition local_connect :: "nat \<Rightarrow> state \<Rightarrow> js_error + state" where
  "local_connect k s =
     (if \<not> connect_cb (sockets s k) then Inr s
      else
        (let s1 = debug_log [Str ''Connected to local HTTP server'']
                    (s\<lparr>sockets := (sockets s)(k := (sockets s k)\<lparr>connect_cb := False\<rparr>)\<rparr>)
         in (case localSocket s1 of
               None \<Rightarrow> Inl TypeError
             | Some l \<Rightarrow>
                 (let s2 = (emit (Sock_setKeepAlive l) s1)\<lparr>connecting := False\<rparr>
                  in (case promise (sockets s2 k) of
                        None \<Rightarrow> Inr s2
                      | Some i \<Rightarrow>
                          (let s3 = s2\<lparr>sockets := (sockets s2)(k := (sockets s2 k)\<lparr>promise := None\<rparr>)\<rparr>
                           in (case invocations s3 i of
                                 Await_connect reqBuffer \<Rightarrow>
                                   Inr (resolve_connection i reqBuffer (Some l) s3)
                               | _ \<Rightarrow> Inr s3)))))))"

text \<open>
  'error': the socket is destroyed when the event is emitted. First the listener of
  \<open>ensureLocalConnection\<close>, then the \<open>onError\<close> of the exchanges; the rejected promise
  resumes its call after all listeners have run. An 'error' event with no listener
  is thrown by the emitter.
\<close>

definition local_error :: "nat \<Rightarrow> string \<Rightarrow> state \<Rightarrow> js_error + state" where
  "local_error k msg s =
     (let sk = sockets s k;
          s1 = s\<lparr>sockets := (sockets s)(k := sk\<lparr>destroyed := True\<rparr>)\<rparr>
      in if \<not> base_listeners sk \<and> exchange sk = [] then Inl (Error msg)
         else
           let s2 = (if base_listeners sk
                     then (emit (Console_error [Str ''Local socket error:'', Msg (Error msg)]) s1)
                            \<lparr>connecting := False, localSocket := None,
                             sockets := (sockets s1)(k := (sockets s1 k)\<lparr>promise := None\<rparr>)\<rparr>
                     else s1)
           in case run_listeners (onError msg) (exchange sk) s2 of
                Inl e \<Rightarrow> Inl e
              | Inr s3 \<Rightarrow>
                  if base_listeners sk
                  then (case promise sk of
                          None \<Rightarrow> Inr s3
                        | Some i \<Rightarrow>
                            (case invocations s3 i of
                               Await_connect reqBuffer \<Rightarrow> Inr (catch_error i (Error msg) s3)
                             | _ \<Rightarrow> Inr s3))
                  else Inr s3)"

text \<open>'close': the socket is destroyed; the listener of \<open>ensureLocalConnection\<close> clears
  the variable \<open>localSocket\<close>, whichever socket it holds.\<close>

definition local_close :: "nat \<Rightarrow> state \<Rightarrow> state" where
  "local_close k s =
     (let s1 = s\<lparr>sockets := (sockets s)(k := (sockets s k)\<lparr>destroyed := True\<rparr>)\<rparr>
      in if base_listeners (sockets s k)
         then (debug_log [Str ''Local socket closed''] s1)\<lparr>localSocket := None\<rparr>
         else s1)"

subsection \<open>Requests from the relay\<close>

text \<open>The synchronous start of \<open>processRequestQueue\<close>, as a new call.\<close>

definition processRequestQueue :: "state \<Rightarrow> state" where
  "processRequestQueue s =
     (if processing s \<or> requestQueue s = [] then s
      else loop_head (next_invocation s)
             (s\<lparr>processing := True, next_invocation := Suc (next_invocation s)\<rparr>))"

definition handleTunnelRequest :: "buffer \<Rightarrow> state \<Rightarrow> state" where
  "handleTunnelRequest reqBuffer s =
     (if has_app s \<and> processing s \<and> localSocket s \<noteq> None
      then (case localSocket s of
              Some k \<Rightarrow> emit (Sock_write k reqBuffer) s
            | None \<Rightarrow> s)
      else
        let s1 = s\<lparr>requestQueue := requestQueue s @ [reqBuffer]\<rparr>
        in if \<not> processing s1 then processRequestQueue s1 else s1)"

subsection \<open>The message handler of the relay connection\<close>

text \<open>How the \<open>try\<close> block ends: by \<open>return\<close>, by reaching its end, or by a throw that the
  \<open>catch\<close> receives. Each carries the state reached.\<close>

datatype outcome = Returns state | Falls state | Throws js_error state

definition preview :: "string \<Rightarrow> string" where
  "preview message = (if length message > 256 then take 256 message @ ''...'' else message)"

definition login_message :: "state \<Rightarrow> js_value" where
  "login_message s =
     JObj [(''type'', JStr ''login''), (''domain'', auth_domain s),
           (''secret'', auth_secret s), (''device'', auth_device s)]"

definition start_message :: "state \<Rightarrow> js_value" where
  "start_message s =
     JObj [(''type'', JStr ''start''),
           (''usage'', JStr (if isPublic s then ''public'' else ''private''))]"

text \<open>The branches on \<open>jsonData\<close>. \<open>Ws_send_text w v\<close> sends \<open>JSON.stringify(v)\<close>.\<close>

definition control :: "platform \<Rightarrow> nat \<Rightarrow> string \<Rightarrow> js_value \<Rightarrow> state \<Rightarrow> outcome" where
  "control P w message jsonData s =
     (if nullish jsonData then Throws TypeError s
      else if field jsonData ''type'' = JStr ''hello''
      then Returns (debug_log [Str ''Authorization request sent'']
                      (emit (Ws_send_text w (login_message s)) s))
      else if field jsonData ''type'' = JStr ''login'' \<and> field jsonData ''status'' = JStr ''ok''
      then
        (let s1 = (debug_log [Str ''Authorization successful. Starting tunnel...''] s)
                    \<lparr>isPrimary := field jsonData ''primary''\<rparr>
         in Returns (emit (Ws_send_text w (start_message s1)) s1))
      else if field jsonData ''type'' = JStr ''start''
      then
        (case Buffer_from P (field jsonData ''suspend'') of
           Inl e \<Rightarrow> Throws e s
         | Inr sc \<Rightarrow>
             (let s1 = s\<lparr>suspendCommand := Some sc\<rparr>
              in case Buffer_from P (field jsonData ''eof'') of
                   Inl e \<Rightarrow> Throws e s1
                 | Inr ef \<Rightarrow>
                     Returns
                       (emit (Console_log
                          (if truthy (isPrimary s1)
                           then [Str ''Website should be accessible at https://'', Val (auth_domain s1)]
                           else [Str ''Website should be accessible at https://'', Val (auth_domain s1),
                                 Str ''/'', Val (auth_device s1)]))
                          (s1\<lparr>eofMarker := Some ef\<rparr>))))
      else if field jsonData ''type'' = JStr ''error''
      then Returns (emit (Console_error [Str ''Tunnel error: '', Val (field jsonData ''message'')]) s)
      else if prefix ''->'' message
      then Returns (emit (Console_log [Str ''Echo:'', Str (drop 2 message)]) s)
      else Falls s)"

definition try_block :: "platform \<Rightarrow> nat \<Rightarrow> buffer \<Rightarrow> bool \<Rightarrow> state \<Rightarrow> outcome" where
  "try_block P w req isBinary s =
     (if req = [] then Returns s
      else if \<not> isBinary
      then
        (let message = req;
             s1 = debug_log [Str ''Received: '', Str (preview message)] s
         in if prefix ''{'' message
            then (case JSON_parse P message of
                    None \<Rightarrow> Throws SyntaxError s1
                  | Some jsonData \<Rightarrow> control P w message jsonData s1)
            else Falls s1)
      else Falls s)"

text \<open>After the \<open>try\<close>: \<open>req.indexOf(tunnel.suspendCommand)\<close> is a TypeError when the
  marker is null.\<close>

definition after_try :: "buffer \<Rightarrow> state \<Rightarrow> js_error + state" where
  "after_try req s =
     (case suspendCommand s of
        None \<Rightarrow> Inl TypeError
      | Some sc \<Rightarrow>
          if indexOf req sc \<noteq> -1
          then Inr (emit (Console_log [Str ''Received suspend command'']) s)
          else Inr (handleTunnelRequest req s))"

definition on_message :: "platform \<Rightarrow> nat \<Rightarrow> buffer \<Rightarrow> bool \<Rightarrow> state \<Rightarrow> js_error + state" where
  "on_message P w req isBinary s =
     (case try_block P w req isBinary s of
        Returns s1 \<Rightarrow> Inr s1
      | Falls s1 \<Rightarrow> after_try req s1
      | Throws e s1 \<Rightarrow>
          after_try req (emit (Console_error [Str ''Error processing message:'', Msg e]) s1))"

subsection \<open>The other handlers of the relay connection, the timers, close\<close>

definition on_open :: "state \<Rightarrow> state" where
  "on_open s = emit (Console_log [Str ''Connection to tunnel server established'']) (s\<lparr>alive := True\<rparr>)"

definition connectToTunnel :: "state \<Rightarrow> state" where
  "connectToTunnel s =
     (let s1 = debug_log [Str ''Connecting to tunnel at '', Str (url s), Str ''...''] (cleanup s);
          w = next_ws s1;
          s2 = (emit (Ws_new w (url s1)) s1)\<lparr>ws := Some w, next_ws := Suc w\<rparr>
      in if pingInterval s2 > 1000 then s2\<lparr>pingIntervalId := Some w\<rparr> else s2)"

text \<open>\<open>(tunnel.autoConnectInterval / 1000).toFixed(0)\<close> of a positive interval.\<close>

definition seconds :: "int \<Rightarrow> int" where
  "seconds ms = (ms + 500) div 1000"

definition on_close :: "js_value \<Rightarrow> js_value \<Rightarrow> state \<Rightarrow> state" where
  "on_close code reason s =
     (let s1 = emit (Console_log [Str ''Tunnel connection closed: '', Val code, Str '' '',
                       (if truthy reason then Val reason else Str ''Reason not specified'')]) s;
          s2 = (cleanup s1)\<lparr>ws := None, suspendCommand := None, eofMarker := None\<rparr>
      in if autoConnectInterval s2 > 10000
         then (emit (Console_log [Str ''Reconnecting to tunnel in '',
                        Num (seconds (autoConnectInterval s2)), Str '' seconds...'']) s2)
                \<lparr>reconnect_timers := Suc (reconnect_timers s2)\<rparr>
         else s2)"

definition on_error :: "string \<Rightarrow> state \<Rightarrow> state" where
  "on_error msg s = cleanup (emit (Console_error [Str ''Tunnel connection error:'', Msg (Error msg)]) s)"

definition on_pong :: "state \<Rightarrow> state" where
  "on_pong s = debug_log [Str ''Tunnel pong, alive''] (s\<lparr>alive := True\<rparr>)"

text \<open>One tick of the ping interval. The callback closes over the connection it was
  created with, which is kept in \<open>pingIntervalId\<close>; a cleared interval does not tick.\<close>

definition ping_tick :: "state \<Rightarrow> state" where
  "ping_tick s =
     (case pingIntervalId s of
        None \<Rightarrow> s
      | Some w \<Rightarrow>
          if \<not> alive s
          then emit (Ws_close w)
                 (emit (Console_log [Str ''Tunnel connection lost.'']) (s\<lparr>pingIntervalId := None\<rparr>))
          else emit (Ws_ping w) (s\<lparr>alive := False\<rparr>))"

text \<open>The timer of \<open>setTimeout(connectToTunnel, tunnel.autoConnectInterval)\<close> fires.\<close>

definition reconnect_timer :: "state \<Rightarrow> state" where
  "reconnect_timer s =
     (case reconnect_timers s of
        0 \<Rightarrow> s
      | Suc n \<Rightarrow> connectToTunnel (s\<lparr>reconnect_timers := n\<rparr>))"

definition immediate :: "state \<Rightarrow> state" where
  "immediate s =
     (case immediates s of
        0 \<Rightarrow> s
      | Suc n \<Rightarrow> processRequestQueue (s\<lparr>immediates := n\<rparr>))"

text \<open>\<open>tunnel.close\<close>.\<close>

definition close :: "state \<Rightarrow> state" where
  "close s =
     (let s1 = cleanup s;
          s2 = (case ws s1 of
                  None \<Rightarrow> s1
                | Some w \<Rightarrow> (emit (Ws_close w) s1)\<lparr>ws := None\<rparr>)
      in s2\<lparr>autoConnectInterval := 0\<rparr>)"

subsection \<open>The event loop\<close>

datatype event =
    Open nat
  | Message nat buffer bool
  | Closed nat js_value js_value
  | Failed nat string
  | Pong nat
  | Ping_timer
  | Reconnect_timer
  | Poll_timer nat
  | Immediate
  | Local_connect nat
  | Local_data nat buffer
  | Local_end nat
  | Local_error nat string
  | Local_close nat
  | Call_close

fun step :: "platform \<Rightarrow> event \<Rightarrow> state \<Rightarrow> js_error + state" where
  "step P (Open w) s = Inr (on_open s)"
| "step P (Message w req isBinary) s = on_message P w req isBinary s"
| "step P (Closed w code reason) s = Inr (on_close code reason s)"
| "step P (Failed w msg) s = Inr (on_error msg s)"
| "step P (Pong w) s = Inr (on_pong s)"
| "step P Ping_timer s = Inr (ping_tick s)"
| "step P Reconnect_timer s = Inr (reconnect_timer s)"
| "step P (Poll_timer i) s = poll_timer i s"
| "step P Immediate s = Inr (immediate s)"
| "step P (Local_connect k) s = local_connect k s"
| "step P (Local_data k chunk) s = local_data k chunk s"
| "step P (Local_end k) s = local_end k s"
| "step P (Local_error k msg) s = local_error k msg s"
| "step P (Local_close k) s = Inr (local_close k s)"
| "step P Call_close s = Inr (close s)"

text \<open>A run of events; an uncaught exception ends it.\<close>

fun run :: "platform \<Rightarrow> event list \<Rightarrow> state \<Rightarrow> js_error + state" where
  "run P [] s = Inr s"
| "run P (e # es) s = (case step P e s of Inl err \<Rightarrow> Inl err | Inr s1 \<Rightarrow> run P es s1)"

subsection \<open>Construction\<close>

text \<open>The options object; \<open>None\<close> is a property that is not given. \<open>env_domain\<close> and
  \<open>env_secret\<close> are \<open>process.env.TUNNEL_DOMAIN\<close> and \<open>process.env.TUNNEL_SECRET\<close>.\<close>

record options =
  opt_provider :: "string option"
  opt_domain :: "string option"
  opt_secret :: "string option"
  opt_device :: "string option"
  opt_debug :: "bool option"
  opt_public :: "bool option"
  opt_localPort :: "int option"
  opt_pingInterval :: "int option"
  opt_autoConnectInterval :: "int option"

text \<open>\<open>a || b\<close> on an optional string and on an optional number.\<close>

definition or_string :: "string option \<Rightarrow> js_value \<Rightarrow> js_value" where
  "or_string a b = (case a of None \<Rightarrow> b | Some x \<Rightarrow> if x = [] then b else JStr x)"

definition or_int :: "int option \<Rightarrow> int \<Rightarrow> int" where
  "or_int a b = (case a of None \<Rightarrow> b | Some x \<Rightarrow> if x = 0 then b else x)"

definition env_value :: "string option \<Rightarrow> js_value" where
  "env_value e = (case e of None \<Rightarrow> JUndefined | Some x \<Rightarrow> JStr x)"

definition initial :: "options \<Rightarrow> string option \<Rightarrow> string option \<Rightarrow> bool \<Rightarrow> state" where
  "initial opts env_domain env_secret app =
     \<lparr>url = (case opt_provider opts of
               None \<Rightarrow> ''wss://device-tunnel.top:3333''
             | Some x \<Rightarrow> if x = [] then ''wss://device-tunnel.top:3333'' else x),
      auth_domain = or_string (opt_domain opts) (env_value env_domain),
      auth_secret = or_string (opt_secret opts) (env_value env_secret),
      auth_device = or_string (opt_device opts) (JStr ''default-app''),
      suspendCommand = None,
      eofMarker = None,
      pingIntervalId = None,
      isPrimary = JBool False,
      ws = None,
      alive = False,
      debug = (opt_debug opts = Some True),
      isPublic = (opt_public opts = Some True),
      localPort = or_int (opt_localPort opts) 80,
      pingInterval = or_int (opt_pingInterval opts) 50000,
      autoConnectInterval = (case opt_autoConnectInterval opts of None \<Rightarrow> 30000 | Some x \<Rightarrow> x),
      has_app = app,
      localSocket = None,
      requestQueue = [],
      connecting = False,
      processing = False,
      sockets = (\<lambda>k. \<lparr>destroyed = False, connect_cb = False, base_listeners = False,
                        promise = None, exchange = []\<rparr>),
      next_socket = 0,
      next_ws = 0,
      invocations = (\<lambda>i. Returned),
      next_invocation = 0,
      reconnect_timers = 0,
      immediates = 0,
      trace = []\<rparr>"

definition selfTunnel :: "options \<Rightarrow> string option \<Rightarrow> string option \<Rightarrow> bool \<Rightarrow> state" where
  "selfTunnel opts env_domain env_secret app =
     connectToTunnel (initial opts env_domain env_secret app)"

subsection \<open>Observations on the effects\<close>

text \<open>The requests written to the local server, with the socket; the frames sent to the
  relay; the connections opened to the relay.\<close>

fun local_writes :: "effect list \<Rightarrow> (nat \<times> buffer) list" where
  "local_writes [] = []"
| "local_writes (Sock_write k b # es) = (k, b) # local_writes es"
| "local_writes (e # es) = local_writes es"

fun relay_frames :: "effect list \<Rightarrow> effect list" where
  "relay_frames [] = []"
| "relay_frames (Ws_send_text w v # es) = Ws_send_text w v # relay_frames es"
| "relay_frames (Ws_send_binary w b # es) = Ws_send_binary w b # relay_frames es"
| "relay_frames (e # es) = relay_frames es"

fun connects :: "effect list \<Rightarrow> nat list" where
  "connects [] = []"
| "connects (Ws_new w u # es) = w # connects es"
| "connects (e # es) = connects es"

fun is_console :: "effect \<Rightarrow> bool" where
  "is_console (Console_log a) = True"
| "is_console (Console_error a) = True"
| "is_console e = False"

text \<open>What decides whether the client connects to the relay again.\<close>

definition quiet :: "state \<Rightarrow> nat \<times> int \<times> nat list" where
  "quiet s = (reconnect_timers s, autoConnectInterval s, connects (trace s))"

definition written :: "js_error + state \<Rightarrow> (nat \<times> buffer) list" where
  "written r = (case r of Inl e \<Rightarrow> [] | Inr s \<Rightarrow> local_writes (trace s))"

definition framed :: "js_error + state \<Rightarrow> effect list" where
  "framed r = (case r of Inl e \<Rightarrow> [] | Inr s \<Rightarrow> relay_frames (trace s))"

definition connected :: "js_error + state \<Rightarrow> nat list" where
  "connected r = (case r of Inl e \<Rightarrow> [] | Inr s \<Rightarrow> connects (trace s))"

text \<open>Both together, in the order they happen: the writes to the local server and the
  frames to the relay.\<close>

fun forwarding :: "effect list \<Rightarrow> effect list" where
  "forwarding [] = []"
| "forwarding (Sock_write k b # es) = Sock_write k b # forwarding es"
| "forwarding (Ws_send_binary w b # es) = Ws_send_binary w b # forwarding es"
| "forwarding (Ws_send_text w v # es) = Ws_send_text w v # forwarding es"
| "forwarding (e # es) = forwarding es"

definition forwarded :: "js_error + state \<Rightarrow> effect list" where
  "forwarded r = (case r of Inl e \<Rightarrow> [] | Inr s \<Rightarrow> forwarding (trace s))"

subsection \<open>The local server, as the loop sees it\<close>

text \<open>
  What the local server does during one exchange, on the socket \<open>k\<close> of the call \<open>i\<close>,
  told as the events the loop sees: chunks of data and ticks of the 10 ms timer of
  \<open>checkComplete\<close>. Every course of chunks and ticks up to the completion of the response
  has one of two forms.
  \<open>Quiet n bs\<close>: \<open>n\<close> ticks with nothing received yet, then the bursts of chunks \<open>bs\<close>,
  each burst followed by a tick, then a tick with nothing new, at which \<open>checkComplete\<close>
  takes the response as complete; the connection stays open.
  \<open>Ended n bs l\<close>: the same ticks and bursts, then the chunks \<open>l\<close>, and the server ends the
  stream: 'end', at which \<open>onEnd\<close> completes the response, then 'close' on the socket,
  then the next tick. The loop then needs a new connection for the next request.
\<close>

datatype answer = Quiet nat "buffer list list" | Ended nat "buffer list list" "buffer list"

definition burst_events :: "nat \<Rightarrow> nat \<Rightarrow> buffer list \<Rightarrow> event list" where
  "burst_events k i b = map (Local_data k) b @ [Poll_timer i]"

text \<open>The events until the response is complete: the loop only collects.\<close>

fun waiting_events :: "nat \<Rightarrow> nat \<Rightarrow> answer \<Rightarrow> event list" where
  "waiting_events k i (Quiet n bs) =
     replicate n (Poll_timer i) @ concat (map (burst_events k i) bs)"
| "waiting_events k i (Ended n bs l) =
     replicate n (Poll_timer i) @ concat (map (burst_events k i) bs) @ map (Local_data k) l"

text \<open>The events that complete the response and resume the loop.\<close>

fun closing_events :: "nat \<Rightarrow> nat \<Rightarrow> answer \<Rightarrow> event list" where
  "closing_events k i (Quiet n bs) = [Poll_timer i]"
| "closing_events k i (Ended n bs l) = [Local_end k, Local_close k, Poll_timer i]"

text \<open>The chunks of the response in the order received, the value of \<open>chunksLast\<close> when
  the last of them has arrived, and the bytes of the response.\<close>

fun response_chunks :: "answer \<Rightarrow> buffer list" where
  "response_chunks (Quiet n bs) = concat bs"
| "response_chunks (Ended n bs l) = concat bs @ l"

fun chunks_seen :: "answer \<Rightarrow> nat" where
  "chunks_seen (Quiet n bs) = length (concat bs)"
| "chunks_seen (Ended n bs l) = length (concat bs)"

definition response_bytes :: "answer \<Rightarrow> buffer" where
  "response_bytes a = concat (response_chunks a)"

text \<open>Every burst has a chunk, and a response that is taken as complete by its silence
  has at least one burst (before the first chunk the loop only waits).\<close>

fun well_timed :: "answer \<Rightarrow> bool" where
  "well_timed (Quiet n bs) = (bs \<noteq> [] \<and> [] \<notin> set bs)"
| "well_timed (Ended n bs l) = ([] \<notin> set bs)"

text \<open>Sockets are numbered in the order of \<open>net.connect\<close>; \<open>m\<close> is the number the next new
  socket gets. The socket that serves the next request, the number of the next new
  socket after that, and the 'connect' of the new socket when there is one.\<close>

fun socket_after :: "nat \<Rightarrow> nat \<Rightarrow> answer \<Rightarrow> nat" where
  "socket_after k m (Quiet n bs) = k"
| "socket_after k m (Ended n bs l) = m"

fun fresh_after :: "nat \<Rightarrow> answer \<Rightarrow> nat" where
  "fresh_after m (Quiet n bs) = m"
| "fresh_after m (Ended n bs l) = Suc m"

fun reconnect_events :: "nat \<Rightarrow> answer \<Rightarrow> event list" where
  "reconnect_events m (Quiet n bs) = []"
| "reconnect_events m (Ended n bs l) = [Local_connect m]"

text \<open>The events from the completion of the response \<open>a\<close> on, when the answers \<open>bs\<close> to
  the requests behind it follow.\<close>

fun later_events :: "nat \<Rightarrow> nat \<Rightarrow> nat \<Rightarrow> answer \<Rightarrow> answer list \<Rightarrow> event list" where
  "later_events k m i a [] = closing_events k i a"
| "later_events k m i a (b # bs) =
     closing_events k i a @ reconnect_events m a @ waiting_events (socket_after k m a) i b
       @ later_events (socket_after k m a) (fresh_after m a) i b bs"

text \<open>Requests and answers in turn: each request written to the socket that serves it,
  then its response, with the marker \<open>E\<close> at its end, sent on the connection \<open>w\<close>.\<close>

fun paired :: "nat \<Rightarrow> nat \<Rightarrow> nat \<Rightarrow> buffer \<Rightarrow> buffer list \<Rightarrow> answer list \<Rightarrow> effect list" where
  "paired k m w E (R # Rs) (a # as) =
     Sock_write k R # Ws_send_binary w (response_bytes a @ E)
       # paired (socket_after k m a) (fresh_after m a) w E Rs as"
| "paired k m w E Rs as = []"

text \<open>The state in which the call \<open>i\<close> has received the chunks \<open>cs\<close> on the socket \<open>k\<close>,
  the response is not complete, and \<open>chunksLast\<close> is \<open>n\<close>.\<close>

definition acc :: "state \<Rightarrow> nat \<Rightarrow> nat \<Rightarrow> buffer list \<Rightarrow> nat \<Rightarrow> state" where
  "acc s i k cs n = s\<lparr>invocations := (invocations s)(i := Await_response k cs False n)\<rparr>"

text \<open>The call \<open>i\<close> has just written a request to the live cached socket \<open>k\<close> and waits
  for the response; the next new socket gets the number \<open>m\<close>.\<close>

definition serving :: "state \<Rightarrow> nat \<Rightarrow> nat \<Rightarrow> nat \<Rightarrow> bool" where
  "serving s k m i =
     (invocations s i = Await_response k [] False 0 \<and> exchange (sockets s k) = [i]
      \<and> localSocket s = Some k \<and> \<not> destroyed (sockets s k)
      \<and> \<not> connecting s \<and> next_socket s = m)"

text \<open>The first request of an idle loop goes to the cached socket when that is live, and
  to a new socket otherwise, which then has to connect.\<close>

definition first_socket :: "state \<Rightarrow> nat" where
  "first_socket s =
     (case localSocket s of
        Some k \<Rightarrow> if destroyed (sockets s k) then next_socket s else k
      | None \<Rightarrow> next_socket s)"

definition first_fresh :: "state \<Rightarrow> nat" where
  "first_fresh s = (if live s (localSocket s) then next_socket s else Suc (next_socket s))"

definition connect_events :: "state \<Rightarrow> event list" where
  "connect_events s = (if live s (localSocket s) then [] else [Local_connect (next_socket s)])"

text \<open>Two notions for the proofs. In a state that is \<open>accepting\<close>, \<open>handleTunnelRequest\<close>
  appends a payload to the queue and does nothing else. \<open>blind_run P S es s t\<close>: the events
  \<open>es\<close> lead from \<open>s\<close> to \<open>t\<close> through accepting states, and each step neither reads nor
  writes the request queue.\<close>

definition accepting :: "buffer \<Rightarrow> state \<Rightarrow> bool" where
  "accepting S s = (processing s \<and> \<not> has_app s \<and> suspendCommand s = Some S)"

fun blind_run :: "platform \<Rightarrow> buffer \<Rightarrow> event list \<Rightarrow> state \<Rightarrow> state \<Rightarrow> bool" where
  "blind_run P S [] s t = (accepting S s \<and> t = s)"
| "blind_run P S (e # es) s t =
     (accepting S s
      \<and> (\<exists>s1. (\<forall>q. step P e (s\<lparr>requestQueue := q\<rparr>) = Inr (s1\<lparr>requestQueue := q\<rparr>))
              \<and> requestQueue s1 = requestQueue s \<and> blind_run P S es s1 t))"

subsection \<open>A concrete session\<close>

text \<open>A configuration, a relay that speaks the three handshake messages, and the state
  the client reaches once the handshake is through.\<close>

definition example_options :: options where
  "example_options =
     \<lparr>opt_provider = None, opt_domain = Some ''d.example'', opt_secret = Some ''k'',
      opt_device = None, opt_debug = None, opt_public = None, opt_localPort = Some 3000,
      opt_pingInterval = None, opt_autoConnectInterval = None\<rparr>"

definition hello_text :: string where
  \<open>hello_text = ''{"type":"hello"}''\<close>

definition login_text :: string where
  \<open>login_text = ''{"type":"login","status":"ok","primary":true}''\<close>

definition start_text :: string where
  \<open>start_text = ''{"type":"start","suspend":"S","eof":"E"}''\<close>

definition example_platform :: platform where
  "example_platform =
     \<lparr>JSON_parse = (\<lambda>m.
        if m = hello_text then Some (JObj [(''type'', JStr ''hello'')])
        else if m = login_text
        then Some (JObj [(''type'', JStr ''login''), (''status'', JStr ''ok''), (''primary'', JBool True)])
        else if m = start_text
        then Some (JObj [(''type'', JStr ''start''), (''suspend'', JStr ''S''), (''eof'', JStr ''E'')])
        else None),
      Buffer_from_object = (\<lambda>v. None)\<rparr>"

definition handshake :: "event list" where
  "handshake = [Open 0, Message 0 hello_text False, Message 0 login_text False,
                Message 0 start_text False]"

definition established :: "bool \<Rightarrow> state" where
  "established app =
     (initial example_options None None app)
       \<lparr>suspendCommand := Some ''S'', eofMarker := Some ''E'', pingIntervalId := Some 0,
        isPrimary := JBool True, ws := Some 0, alive := True, next_ws := 1,
        trace :=
          [Ws_new 0 ''wss://device-tunnel.top:3333'',
           Console_log [Str ''Connection to tunnel server established''],
           Ws_send_text 0
             (JObj [(''type'', JStr ''login''), (''domain'', JStr ''d.example''),
                    (''secret'', JStr ''k''), (''device'', JStr ''default-app'')]),
           Ws_send_text 0 (JObj [(''type'', JStr ''start''), (''usage'', JStr ''private'')]),
           Console_log [Str ''Website should be accessible at https://'',
                        Val (JStr ''d.example'')]]\<rparr>"

text \<open>Two requests have arrived; the first is written to the local server and waits
  for its response, the second is queued.\<close>

definition in_flight :: state where
  "in_flight =
     (case run example_platform
             [Message 0 ''R1'' True, Message 0 ''R2'' True, Local_connect 0] (established False) of
        Inl e \<Rightarrow> established False
      | Inr s \<Rightarrow> s)"

text \<open>One request has been answered on a connection that the local server keeps open: the
  loop is idle and the cached local socket is live.\<close>

definition kept_alive :: state where
  "kept_alive =
     (case run example_platform
             [Message 0 ''R0'' True, Local_connect 0, Local_data 0 ''z'', Poll_timer 0,
              Poll_timer 0] (established False) of
        Inl e \<Rightarrow> established False
      | Inr s \<Rightarrow> s)"

section \<open>Properties\<close>

subsection \<open>The concrete session is reachable\<close>

lemmas session_defs = example_platform_def example_options_def hello_text_def login_text_def
  start_text_def handshake_def established_def
lemmas relay_defs = selfTunnel_def initial_def connectToTunnel_def cleanup_def
  on_message_def try_block_def control_def after_try_def on_open_def emit_def debug_log_def Let_def
  or_string_def or_int_def env_value_def nullish_def login_message_def start_message_def preview_def

lemmas forward_defs = handleTunnelRequest_def processRequestQueue_def loop_head_def
  new_connection_def start_exchange_def local_connect_def resolve_connection_def
  poll_timer_def complete_response_def cleanupSocketListeners_def handleTunnelResponse_def
  local_data_def local_end_def onData_def onEnd_def onError_def local_error_def local_close_def
  catch_error_def live_def written_def framed_def connected_def

lemma established_reachable:
  "run example_platform handshake (selfTunnel example_options None None app) = Inr (established app)"
  by (simp add: session_defs relay_defs)

lemma established_fields:
  "\<not> processing (established app)" "requestQueue (established app) = []"
  "\<not> live (established app) (localSocket (established app))" "\<not> connecting (established app)"
  "suspendCommand (established app) = Some ''S''" "eofMarker (established app) = Some ''E''"
  "ws (established app) = Some 0" "has_app (established app) = app"
  "next_socket (established app) = 0" "next_invocation (established app) = 0"
  "local_writes (trace (established app)) = []"
  "relay_frames (trace (established app)) =
     [Ws_send_text 0 (JObj [(''type'', JStr ''login''), (''domain'', JStr ''d.example''),
                            (''secret'', JStr ''k''), (''device'', JStr ''default-app'')]),
      Ws_send_text 0 (JObj [(''type'', JStr ''start''), (''usage'', JStr ''private'')])]"
  by (simp_all add: session_defs initial_def live_def)

lemma established_forwarding: "forwarding (trace (established app)) =
     [Ws_send_text 0 (JObj [(''type'', JStr ''login''), (''domain'', JStr ''d.example''),
                            (''secret'', JStr ''k''), (''device'', JStr ''default-app'')]),
      Ws_send_text 0 (JObj [(''type'', JStr ''start''), (''usage'', JStr ''private'')])]"
  by (simp add: session_defs)

lemma in_flight_fields:
  "localSocket in_flight = Some 0" "\<not> destroyed (sockets in_flight 0)"
  "requestQueue in_flight = [''R2'']" "processing in_flight"
  "invocations in_flight 0 = Await_response 0 [] False 0"
  "exchange (sockets in_flight 0) = [0]" "base_listeners (sockets in_flight 0)"
  "reconnect_timers in_flight = 0" "autoConnectInterval in_flight = 30000"
  "isPrimary in_flight = JBool True" "ws in_flight = Some 0" "pingIntervalId in_flight = Some 0"
  "alive in_flight" "suspendCommand in_flight = Some ''S''" "eofMarker in_flight = Some ''E''"
  "connects (trace in_flight) = [0]" "local_writes (trace in_flight) = [(0, ''R1'')]"
  "\<not> has_app in_flight" "\<not> debug in_flight" "next_socket in_flight = 1" "next_ws in_flight = 1"
  "promise (sockets in_flight 0) = None" "next_invocation in_flight = 1"
  "relay_frames (trace in_flight) =
     [Ws_send_text 0 (JObj [(''type'', JStr ''login''), (''domain'', JStr ''d.example''),
                            (''secret'', JStr ''k''), (''device'', JStr ''default-app'')]),
      Ws_send_text 0 (JObj [(''type'', JStr ''start''), (''usage'', JStr ''private'')])]"
  by (simp_all add: in_flight_def session_defs relay_defs forward_defs indexOf_def)

lemma kept_alive_fields:
  "\<not> has_app kept_alive" "\<not> processing kept_alive" "requestQueue kept_alive = []"
  "\<not> connecting kept_alive" "localSocket kept_alive = Some 0"
  "\<not> destroyed (sockets kept_alive 0)" "exchange (sockets kept_alive 0) = []"
  "suspendCommand kept_alive = Some ''S''" "eofMarker kept_alive = Some ''E''"
  "ws kept_alive = Some 0" "next_socket kept_alive = 1" "next_invocation kept_alive = 1"
  "forwarding (trace kept_alive) =
     [Ws_send_text 0 (JObj [(''type'', JStr ''login''), (''domain'', JStr ''d.example''),
                            (''secret'', JStr ''k''), (''device'', JStr ''default-app'')]),
      Ws_send_text 0 (JObj [(''type'', JStr ''start''), (''usage'', JStr ''private'')]),
      Sock_write 0 ''R0'', Ws_send_binary 0 ''zE'']"
  by (simp_all add: kept_alive_def session_defs relay_defs forward_defs indexOf_def)

subsection \<open>Suspend detection\<close>

lemma indexOf_at_found: "indexOf_at i buf val \<noteq> -1 \<longleftrightarrow> sublist val buf"
proof (induction buf arbitrary: i)
  case Nil
  then show ?case by simp
next
  case (Cons b bs)
  then show ?case by (simp add: sublist_Cons_right)
qed

lemma indexOf_found: "indexOf buf val \<noteq> -1 \<longleftrightarrow> sublist val buf"
  by (simp add: indexOf_def indexOf_at_found)

text \<open>
  C2, as the code has it. With a suspend marker stored, a non-empty binary message is
  taken as the suspend signal (one line logged, nothing enqueued, the state otherwise
  unchanged) exactly when the marker occurs somewhere in it as a contiguous run of
  bytes; a whole-frame match is one such case. Every other binary message goes to
  \<open>handleTunnelRequest\<close>, which appends it to the queue unless the write-through of an
  attached app applies.
\<close>

theorem suspend_detection:
  assumes "suspendCommand s = Some sc" and "m \<noteq> []"
  shows "(sublist sc m \<longrightarrow>
            on_message P w m True s = Inr (emit (Console_log [Str ''Received suspend command'']) s))
       \<and> (\<not> sublist sc m \<longrightarrow> on_message P w m True s = Inr (handleTunnelRequest m s))
       \<and> (\<not> sublist sc m \<and> processing s \<and> \<not> has_app s \<longrightarrow>
            on_message P w m True s = Inr (s\<lparr>requestQueue := requestQueue s @ [m]\<rparr>))"
  using assms
  by (simp add: on_message_def try_block_def after_try_def indexOf_found handleTunnelRequest_def Let_def)

theorem suspend_detection_witness:
  "on_message example_platform 0 ''S'' True (established False)
     = Inr (emit (Console_log [Str ''Received suspend command'']) (established False))
   \<and> on_message example_platform 0 ''GET'' True (established False)
     = Inr (handleTunnelRequest ''GET'' (established False))
   \<and> on_message example_platform 0 ''GET'' True ((established False)\<lparr>processing := True\<rparr>)
     = Inr ((established False)\<lparr>processing := True, requestQueue := [''GET'']\<rparr>)"
proof -
  have a: "suspendCommand (established False) = Some ''S''" by (simp add: session_defs)
  have b: "suspendCommand ((established False)\<lparr>processing := True\<rparr>) = Some ''S''" by (simp add: session_defs)
  have c: "sublist ''S'' ''S''" by simp
  have d: "\<not> sublist ''S'' ''GET''" by (simp add: sublist_Cons_right)
  have e: "\<not> has_app ((established False)\<lparr>processing := True\<rparr>)" by (simp add: session_defs initial_def)
  have f: "processing ((established False)\<lparr>processing := True\<rparr>)" by simp
  have q: "requestQueue (established False) = []" by (simp add: session_defs initial_def)
  have 1: "on_message example_platform 0 ''S'' True (established False)
     = Inr (emit (Console_log [Str ''Received suspend command'']) (established False))"
    using suspend_detection [OF a, of "''S''" example_platform 0] c by blast
  have 2: "on_message example_platform 0 ''GET'' True (established False)
     = Inr (handleTunnelRequest ''GET'' (established False))"
    using suspend_detection [OF a, of "''GET''" example_platform 0] d by blast
  have "on_message example_platform 0 ''GET'' True ((established False)\<lparr>processing := True\<rparr>)
     = Inr ((established False)\<lparr>processing := True\<rparr>
          \<lparr>requestQueue := requestQueue ((established False)\<lparr>processing := True\<rparr>) @ [''GET'']\<rparr>)"
    using suspend_detection [OF b, of "''GET''" example_platform 0] d e f by blast
  then have 3: "on_message example_platform 0 ''GET'' True ((established False)\<lparr>processing := True\<rparr>)
     = Inr ((established False)\<lparr>processing := True, requestQueue := [''GET'']\<rparr>)"
    by (simp add: q)
  from 1 2 3 show ?thesis by blast
qed

text \<open>C2 as stated fails: the frame \<open>xSy\<close> is not the marker \<open>S\<close>, yet it is taken as
  the suspend signal and is not enqueued.\<close>

theorem suspend_substring_counterexample:
  "''xSy'' \<noteq> ''S'' \<and> suspendCommand (established False) = Some ''S''
   \<and> on_message example_platform 0 ''xSy'' True (established False)
       = Inr (emit (Console_log [Str ''Received suspend command'']) (established False))"
  by (simp add: session_defs on_message_def try_block_def after_try_def indexOf_def)


subsection \<open>The handshake\<close>

lemma field_not_nullish: "field j k = JStr x \<Longrightarrow> \<not> nullish j"
  by (cases j) (simp_all add: nullish_def)

lemma relay_frames_append: "relay_frames (xs @ ys) = relay_frames xs @ relay_frames ys"
  by (induction xs rule: relay_frames.induct) simp_all

lemma on_hello:
  assumes "prefix ''{'' m" and "JSON_parse P m = Some j" and "field j ''type'' = JStr ''hello''"
  shows "on_message P w m False s
     = Inr (debug_log [Str ''Authorization request sent'']
             (emit (Ws_send_text w (login_message s))
               (debug_log [Str ''Received: '', Str (preview m)] s)))"
proof -
  from assms(1) have "m \<noteq> []" by auto
  with assms field_not_nullish [OF assms(3)] show ?thesis
    by (simp add: on_message_def try_block_def control_def Let_def login_message_def debug_log_def emit_def)
qed

lemma on_login:
  assumes "prefix ''{'' m" and "JSON_parse P m = Some j" and "field j ''type'' = JStr ''login''"
    and "field j ''status'' = JStr ''ok''"
  shows "on_message P w m False s
     = Inr (emit (Ws_send_text w (start_message s))
              ((debug_log [Str ''Authorization successful. Starting tunnel...'']
                 (debug_log [Str ''Received: '', Str (preview m)] s))\<lparr>isPrimary := field j ''primary''\<rparr>))"
proof -
  from assms(1) have "m \<noteq> []" by auto
  with assms field_not_nullish [OF assms(3)] show ?thesis
    by (simp add: on_message_def try_block_def control_def Let_def start_message_def debug_log_def emit_def)
qed

lemma on_start:
  assumes "prefix ''{'' m" and "JSON_parse P m = Some j" and "field j ''type'' = JStr ''start''"
    and "field j ''suspend'' = JStr S" and "field j ''eof'' = JStr E"
  shows "on_message P w m False s
     = Inr (emit (Console_log
                (if truthy (isPrimary s)
                 then [Str ''Website should be accessible at https://'', Val (auth_domain s)]
                 else [Str ''Website should be accessible at https://'', Val (auth_domain s),
                       Str ''/'', Val (auth_device s)]))
              ((debug_log [Str ''Received: '', Str (preview m)] s)
                 \<lparr>suspendCommand := Some S, eofMarker := Some E\<rparr>))"
proof -
  from assms(1) have "m \<noteq> []" by auto
  with assms field_not_nullish [OF assms(3)] show ?thesis
    by (simp add: on_message_def try_block_def control_def Let_def debug_log_def emit_def)
qed

text \<open>
  C3. The relay sends, as text frames on one connection, a \<open>hello\<close>, a \<open>login\<close> with status
  ok and primary true, and a \<open>start\<close> with suspend \<open>S\<close> and eof \<open>E\<close>. The client sends
  exactly two frames in answer: the login message with domain, secret and device, then
  the start message with the configured usage. Afterwards the stored suspend marker is
  \<open>S\<close>, the stored eof marker is \<open>E\<close>, and the primary flag is true.
\<close>

theorem handshake_sequencing:
  assumes "prefix ''{'' m1" and "JSON_parse P m1 = Some j1" and "field j1 ''type'' = JStr ''hello''"
    and "prefix ''{'' m2" and "JSON_parse P m2 = Some j2" and "field j2 ''type'' = JStr ''login''"
    and "field j2 ''status'' = JStr ''ok''" and "field j2 ''primary'' = JBool True"
    and "prefix ''{'' m3" and "JSON_parse P m3 = Some j3" and "field j3 ''type'' = JStr ''start''"
    and "field j3 ''suspend'' = JStr S" and "field j3 ''eof'' = JStr E"
  shows "\<exists>s'. run P [Message w m1 False, Message w m2 False, Message w m3 False] s = Inr s'
          \<and> relay_frames (trace s') = relay_frames (trace s) @
               [Ws_send_text w (JObj [(''type'', JStr ''login''), (''domain'', auth_domain s),
                                      (''secret'', auth_secret s), (''device'', auth_device s)]),
                Ws_send_text w (JObj [(''type'', JStr ''start''),
                                      (''usage'', JStr (if isPublic s then ''public'' else ''private''))])]
          \<and> suspendCommand s' = Some S \<and> eofMarker s' = Some E \<and> isPrimary s' = JBool True"
  using assms(8)
  by (simp add: on_hello [OF assms(1-3)] on_login [OF assms(4-7)] on_start [OF assms(9-13)]
      debug_log_def emit_def login_message_def start_message_def relay_frames_append)

theorem handshake_sequencing_witness:
  "\<exists>s'. run example_platform
           [Message 0 hello_text False, Message 0 login_text False, Message 0 start_text False]
           (on_open (selfTunnel example_options None None False)) = Inr s'
      \<and> relay_frames (trace s') =
           [Ws_send_text 0 (JObj [(''type'', JStr ''login''), (''domain'', JStr ''d.example''),
                                  (''secret'', JStr ''k''), (''device'', JStr ''default-app'')]),
            Ws_send_text 0 (JObj [(''type'', JStr ''start''), (''usage'', JStr ''private'')])]
      \<and> suspendCommand s' = Some ''S'' \<and> eofMarker s' = Some ''E'' \<and> isPrimary s' = JBool True"
proof -
  let ?s = "on_open (selfTunnel example_options None None False)"
  have h: "prefix ''{'' hello_text" "JSON_parse example_platform hello_text = Some (JObj [(''type'', JStr ''hello'')])"
    "field (JObj [(''type'', JStr ''hello'')]) ''type'' = JStr ''hello''"
    by (simp_all add: session_defs)
  let ?l = "JObj [(''type'', JStr ''login''), (''status'', JStr ''ok''), (''primary'', JBool True)]"
  have l: "prefix ''{'' login_text" "JSON_parse example_platform login_text = Some ?l"
    "field ?l ''type'' = JStr ''login''" "field ?l ''status'' = JStr ''ok''" "field ?l ''primary'' = JBool True"
    by (simp_all add: session_defs)
  let ?t = "JObj [(''type'', JStr ''start''), (''suspend'', JStr ''S''), (''eof'', JStr ''E'')]"
  have t: "prefix ''{'' start_text" "JSON_parse example_platform start_text = Some ?t"
    "field ?t ''type'' = JStr ''start''" "field ?t ''suspend'' = JStr ''S''" "field ?t ''eof'' = JStr ''E''"
    by (simp_all add: session_defs)
  have s: "relay_frames (trace ?s) = []" "auth_domain ?s = JStr ''d.example''"
    "auth_secret ?s = JStr ''k''" "auth_device ?s = JStr ''default-app''" "\<not> isPublic ?s"
    by (simp_all add: session_defs relay_defs)
  from handshake_sequencing [OF h l t, of 0 ?s] s show ?thesis by simp
qed

subsection \<open>Exceptions that leave the message handler\<close>

lemma null_marker_throws:
  "suspendCommand s = None \<Longrightarrow> m \<noteq> [] \<Longrightarrow> on_message P w m True s = Inl TypeError"
  by (simp add: on_message_def try_block_def after_try_def)

text \<open>
  C4 fails on the code. On a fresh connection the suspend marker is still null, and
  \<open>req.indexOf(tunnel.suspendCommand)\<close> stands after the \<open>try\<close>: a binary payload that
  arrives before the \<open>start\<close> message makes the handler throw a TypeError.
\<close>

theorem binary_before_handshake_throws:
  "on_message example_platform 0 ''GET / HTTP/1.1'' True
     (on_open (selfTunnel example_options None None False)) = Inl TypeError"
  by (simp add: session_defs relay_defs)

subsection \<open>Text that is no control message\<close>

lemma after_try_stored:
  "suspendCommand s = Some sc \<Longrightarrow>
   after_try m s = (if sublist sc m then Inr (emit (Console_log [Str ''Received suspend command'']) s)
                    else Inr (handleTunnelRequest m s))"
  by (simp add: after_try_def indexOf_found)

lemma try_block_text:
  assumes "m \<noteq> []" and "\<not> prefix ''->'' m"
    and "\<not> prefix ''{'' m \<or> JSON_parse P m = None
       \<or> (\<exists>j. JSON_parse P m = Some j \<and>
             (nullish j \<or>
              (field j ''type'' \<noteq> JStr ''hello'' \<and> field j ''type'' \<noteq> JStr ''start''
               \<and> field j ''type'' \<noteq> JStr ''error''
               \<and> \<not> (field j ''type'' = JStr ''login'' \<and> field j ''status'' = JStr ''ok''))))"
  shows "\<exists>logs. (\<forall>e \<in> set logs. is_console e) \<and>
           on_message P w m False s = after_try m (s\<lparr>trace := trace s @ logs\<rparr>)"
proof -
  let ?s0 = "debug_log [Str ''Received: '', Str (preview m)] s"
  have s0: "\<exists>l0. (\<forall>e \<in> set l0. is_console e) \<and> ?s0 = s\<lparr>trace := trace s @ l0\<rparr>"
  proof (cases "debug s")
    case True
    then have "?s0 = s\<lparr>trace := trace s @ [Console_log [Str ''Received: '', Str (preview m)]]\<rparr>"
      by (simp add: debug_log_def emit_def)
    then show ?thesis by (intro exI [of _ "[Console_log [Str ''Received: '', Str (preview m)]]"]) simp
  next
    case False
    then have "?s0 = s\<lparr>trace := trace s @ []\<rparr>" by (simp add: debug_log_def)
    then show ?thesis by (intro exI [of _ "[]"]) simp
  qed
  then obtain l0 where l0: "\<forall>e \<in> set l0. is_console e" "?s0 = s\<lparr>trace := trace s @ l0\<rparr>" by blast
  consider (nojson) "\<not> prefix ''{'' m"
    | (unparsed) "prefix ''{'' m" "JSON_parse P m = None"
    | (nulled) j where "prefix ''{'' m" "JSON_parse P m = Some j" "nullish j"
    | (unknown) j where "prefix ''{'' m" "JSON_parse P m = Some j" "\<not> nullish j"
        "field j ''type'' \<noteq> JStr ''hello''" "field j ''type'' \<noteq> JStr ''start''"
        "field j ''type'' \<noteq> JStr ''error''"
        "\<not> (field j ''type'' = JStr ''login'' \<and> field j ''status'' = JStr ''ok'')"
    using assms(3) by (cases "prefix [CHR 0x7B] m"; cases "JSON_parse P m") auto
  then show ?thesis
  proof cases
    case nojson
    with assms(1) have "on_message P w m False s = after_try m ?s0"
      by (simp add: on_message_def try_block_def Let_def)
    with l0 show ?thesis by auto
  next
    case unparsed
    with assms(1) have "on_message P w m False s
        = after_try m (emit (Console_error [Str ''Error processing message:'', Msg SyntaxError]) ?s0)"
      by (simp add: on_message_def try_block_def Let_def)
    also have "emit (Console_error [Str ''Error processing message:'', Msg SyntaxError]) ?s0
        = s\<lparr>trace := trace s @ (l0 @ [Console_error [Str ''Error processing message:'', Msg SyntaxError]])\<rparr>"
      by (simp add: l0(2) emit_def)
    finally show ?thesis using l0(1)
      by (intro exI [of _ "l0 @ [Console_error [Str ''Error processing message:'', Msg SyntaxError]]"]) simp
  next
    case nulled
    with assms(1) have "on_message P w m False s
        = after_try m (emit (Console_error [Str ''Error processing message:'', Msg TypeError]) ?s0)"
      by (simp add: on_message_def try_block_def control_def Let_def)
    also have "emit (Console_error [Str ''Error processing message:'', Msg TypeError]) ?s0
        = s\<lparr>trace := trace s @ (l0 @ [Console_error [Str ''Error processing message:'', Msg TypeError]])\<rparr>"
      by (simp add: l0(2) emit_def)
    finally show ?thesis using l0(1)
      by (intro exI [of _ "l0 @ [Console_error [Str ''Error processing message:'', Msg TypeError]]"]) simp
  next
    case unknown
    with assms(1,2) have "on_message P w m False s = after_try m ?s0"
      by (auto simp add: on_message_def try_block_def control_def Let_def)
    with l0 show ?thesis by auto
  qed
qed

text \<open>
  C6, as the code has it. With a suspend marker stored, a non-empty text message that is
  not consumed as a control message (it does not begin with a brace, or does not parse, or
  parses to something that is neither hello, nor a successful login, nor start, nor error)
  and that does not begin with \<open>->\<close> is not dropped: after console output only, it goes
  through the suspend check and \<open>handleTunnelRequest\<close> exactly as a binary payload does.
\<close>

theorem unconsumed_text_is_forwarded:
  assumes "m \<noteq> []" and "\<not> prefix ''->'' m" and "suspendCommand s = Some sc"
    and "\<not> prefix ''{'' m \<or> JSON_parse P m = None
       \<or> (\<exists>j. JSON_parse P m = Some j \<and>
             (nullish j \<or>
              (field j ''type'' \<noteq> JStr ''hello'' \<and> field j ''type'' \<noteq> JStr ''start''
               \<and> field j ''type'' \<noteq> JStr ''error''
               \<and> \<not> (field j ''type'' = JStr ''login'' \<and> field j ''status'' = JStr ''ok''))))"
  shows "\<exists>logs. (\<forall>e \<in> set logs. is_console e) \<and>
           on_message P w m False s =
             (if sublist sc m
              then Inr (emit (Console_log [Str ''Received suspend command''])
                          (s\<lparr>trace := trace s @ logs\<rparr>))
              else Inr (handleTunnelRequest m (s\<lparr>trace := trace s @ logs\<rparr>)))"
proof -
  from try_block_text [OF assms(1,2,4), of w s] obtain logs
    where logs: "\<forall>e \<in> set logs. is_console e"
      "on_message P w m False s = after_try m (s\<lparr>trace := trace s @ logs\<rparr>)" by blast
  have "suspendCommand (s\<lparr>trace := trace s @ logs\<rparr>) = Some sc" using assms(3) by simp
  from after_try_stored [OF this, of m] logs show ?thesis by auto
qed

theorem unconsumed_text_is_forwarded_witness:
  "\<exists>logs. (\<forall>e \<in> set logs. is_console e) \<and>
      on_message example_platform 0 ''ping'' False (established False)
        = Inr (handleTunnelRequest ''ping'' ((established False)\<lparr>trace := trace (established False) @ logs\<rparr>))"
proof -
  have a: "''ping'' \<noteq> []" "\<not> prefix ''->'' ''ping''" "\<not> prefix ''{'' ''ping''" by simp_all
  have b: "suspendCommand (established False) = Some ''S''" by (simp add: session_defs)
  have c: "\<not> sublist ''S'' ''ping''" by (simp add: sublist_Cons_right)
  from unconsumed_text_is_forwarded [OF a(1,2) b, of example_platform 0] a(3) c
  show ?thesis by simp
qed

text \<open>C6 as stated fails: the text frame \<open>ping\<close> is written to the local server.\<close>

theorem text_forwarded_counterexample:
  "written (run example_platform [Message 0 ''ping'' False, Local_connect 0] (established False))
     = [(0, ''ping'')]"
  by (simp add: session_defs relay_defs forward_defs indexOf_def)

text \<open>The branch that logs an echo stands inside the branch for texts that begin with a
  brace, so it is never taken: a text that begins with \<open>->\<close> is forwarded as well.\<close>

lemma echo_text_is_forwarded:
  "written (run example_platform [Message 0 ''->busy'' False, Local_connect 0] (established False))
     = [(0, ''->busy'')]"
  by (simp add: session_defs relay_defs forward_defs indexOf_def)

subsection \<open>cleanup and the request queue\<close>

lemma cleanup_queue: "cleanup (s\<lparr>requestQueue := q\<rparr>) = cleanup (s\<lparr>requestQueue := []\<rparr>)"
  by (cases "localSocket s"; cases "pingIntervalId s")
     (simp_all add: cleanup_def destroy_socket_def emit_def Let_def)

lemma cleanup_emit_queue:
  "cleanup (emit e (s\<lparr>requestQueue := q\<rparr>)) = cleanup (emit e (s\<lparr>requestQueue := []\<rparr>))"
  by (cases "localSocket s"; cases "pingIntervalId s")
     (simp_all add: cleanup_def destroy_socket_def emit_def Let_def)

lemma local_writes_append: "local_writes (xs @ ys) = local_writes xs @ local_writes ys"
  by (induction xs rule: local_writes.induct) simp_all

lemma cleanup_fields:
  "requestQueue (cleanup s) = []" "\<not> connecting (cleanup s)" "\<not> processing (cleanup s)"
  "\<not> alive (cleanup s)" "pingIntervalId (cleanup s) = None"
  "local_writes (trace (cleanup s)) = local_writes (trace s)"
  "relay_frames (trace (cleanup s)) = relay_frames (trace s)"
  by (cases "localSocket s"; cases "pingIntervalId s";
      simp add: cleanup_def destroy_socket_def emit_def Let_def local_writes_append relay_frames_append)+

text \<open>
  C10. The close handler, the error handler and \<open>connectToTunnel\<close> each run \<open>cleanup\<close>,
  which empties the request queue. The state they leave does not depend on the requests
  that were queued, and so neither does any run of events after them: nothing that
  happens later can write one of them to the local server or answer it. The handlers
  themselves write nothing to the local server and send no frame to the relay.
\<close>

theorem queue_discarded:
  "requestQueue (on_close code reason s) = []
   \<and> requestQueue (on_error msg s) = []
   \<and> requestQueue (connectToTunnel s) = []
   \<and> on_close code reason (s\<lparr>requestQueue := q\<rparr>) = on_close code reason (s\<lparr>requestQueue := []\<rparr>)
   \<and> on_error msg (s\<lparr>requestQueue := q\<rparr>) = on_error msg (s\<lparr>requestQueue := []\<rparr>)
   \<and> connectToTunnel (s\<lparr>requestQueue := q\<rparr>) = connectToTunnel (s\<lparr>requestQueue := []\<rparr>)
   \<and> local_writes (trace (on_close code reason s)) = local_writes (trace s)
   \<and> local_writes (trace (on_error msg s)) = local_writes (trace s)
   \<and> local_writes (trace (connectToTunnel s)) = local_writes (trace s)
   \<and> relay_frames (trace (on_close code reason s)) = relay_frames (trace s)
   \<and> relay_frames (trace (on_error msg s)) = relay_frames (trace s)
   \<and> relay_frames (trace (connectToTunnel s)) = relay_frames (trace s)
   \<and> run P es (on_close code reason (s\<lparr>requestQueue := q\<rparr>))
       = run P es (on_close code reason (s\<lparr>requestQueue := []\<rparr>))
   \<and> run P es (on_error msg (s\<lparr>requestQueue := q\<rparr>))
       = run P es (on_error msg (s\<lparr>requestQueue := []\<rparr>))
   \<and> run P es (connectToTunnel (s\<lparr>requestQueue := q\<rparr>))
       = run P es (connectToTunnel (s\<lparr>requestQueue := []\<rparr>))"
proof -
  have q1: "requestQueue (on_close code reason s) = []"
    by (simp add: on_close_def Let_def cleanup_fields emit_def)
  have q2: "requestQueue (on_error msg s) = []"
    by (simp add: on_error_def cleanup_fields)
  have q3: "requestQueue (connectToTunnel s) = []"
    by (simp add: connectToTunnel_def Let_def cleanup_fields emit_def debug_log_def)
  have e1: "on_close code reason (s\<lparr>requestQueue := q\<rparr>) = on_close code reason (s\<lparr>requestQueue := []\<rparr>)"
    using cleanup_emit_queue [where s = s and q = q] by (simp add: on_close_def Let_def emit_def)
  have e2: "on_error msg (s\<lparr>requestQueue := q\<rparr>) = on_error msg (s\<lparr>requestQueue := []\<rparr>)"
    using cleanup_emit_queue [where s = s and q = q] by (simp add: on_error_def emit_def)
  have e3: "connectToTunnel (s\<lparr>requestQueue := q\<rparr>) = connectToTunnel (s\<lparr>requestQueue := []\<rparr>)"
    using cleanup_queue [where s = s and q = q] by (simp add: connectToTunnel_def Let_def)
  have w1: "local_writes (trace (on_close code reason s)) = local_writes (trace s)"
    "relay_frames (trace (on_close code reason s)) = relay_frames (trace s)"
    by (simp_all add: on_close_def Let_def cleanup_fields emit_def local_writes_append relay_frames_append)
  have w2: "local_writes (trace (on_error msg s)) = local_writes (trace s)"
    "relay_frames (trace (on_error msg s)) = relay_frames (trace s)"
    by (simp_all add: on_error_def cleanup_fields emit_def local_writes_append relay_frames_append)
  have w3: "local_writes (trace (connectToTunnel s)) = local_writes (trace s)"
    "relay_frames (trace (connectToTunnel s)) = relay_frames (trace s)"
    by (simp_all add: connectToTunnel_def Let_def cleanup_fields emit_def debug_log_def
        local_writes_append relay_frames_append)
  from e1 e2 e3 have r:
    "run P es (on_close code reason (s\<lparr>requestQueue := q\<rparr>))
       = run P es (on_close code reason (s\<lparr>requestQueue := []\<rparr>))"
    "run P es (on_error msg (s\<lparr>requestQueue := q\<rparr>))
       = run P es (on_error msg (s\<lparr>requestQueue := []\<rparr>))"
    "run P es (connectToTunnel (s\<lparr>requestQueue := q\<rparr>))
       = run P es (connectToTunnel (s\<lparr>requestQueue := []\<rparr>))"
    by simp_all
  from q1 q2 q3 e1 e2 e3 w1 w2 w3 r show ?thesis by blast
qed

theorem queue_discarded_witness:
  "requestQueue in_flight = [''R2'']
   \<and> requestQueue (on_close (JNum 1006) (JStr []) in_flight) = []
   \<and> requestQueue (on_error ''ECONNRESET'' in_flight) = []
   \<and> requestQueue (connectToTunnel in_flight) = []
   \<and> local_writes (trace (on_close (JNum 1006) (JStr []) in_flight)) = [(0, ''R1'')]
   \<and> local_writes (trace (on_error ''ECONNRESET'' in_flight)) = [(0, ''R1'')]
   \<and> local_writes (trace (connectToTunnel in_flight)) = [(0, ''R1'')]"
  using queue_discarded [of "JNum 1006" "JStr []" in_flight "''ECONNRESET''" "[]"]
  by (simp add: in_flight_fields)

subsection \<open>Reconnecting\<close>

lemma connects_append: "connects (xs @ ys) = connects xs @ connects ys"
  by (induction xs rule: connects.induct) simp_all

lemma quiet_emit: "connects [e] = [] \<Longrightarrow> quiet (emit e s) = quiet s"
  by (simp add: quiet_def emit_def connects_append)

lemma quiet_debug_log [simp]: "quiet (debug_log a s) = quiet s"
  by (simp add: debug_log_def quiet_emit)

lemma quiet_updates [simp]:
  "quiet (s\<lparr>sockets := a\<rparr>) = quiet s"
  "quiet (s\<lparr>invocations := b\<rparr>) = quiet s"
  "quiet (s\<lparr>requestQueue := c\<rparr>) = quiet s"
  "quiet (s\<lparr>localSocket := d\<rparr>) = quiet s"
  "quiet (s\<lparr>connecting := e\<rparr>) = quiet s"
  "quiet (s\<lparr>processing := f\<rparr>) = quiet s"
  "quiet (s\<lparr>alive := g\<rparr>) = quiet s"
  "quiet (s\<lparr>pingIntervalId := h\<rparr>) = quiet s"
  "quiet (s\<lparr>next_socket := i\<rparr>) = quiet s"
  "quiet (s\<lparr>next_invocation := j\<rparr>) = quiet s"
  "quiet (s\<lparr>immediates := k\<rparr>) = quiet s"
  "quiet (s\<lparr>suspendCommand := l\<rparr>) = quiet s"
  "quiet (s\<lparr>eofMarker := m\<rparr>) = quiet s"
  "quiet (s\<lparr>isPrimary := n\<rparr>) = quiet s"
  "quiet (s\<lparr>ws := p\<rparr>) = quiet s"
  by (simp_all add: quiet_def)

lemma quiet_cleanup [simp]: "quiet (cleanup s) = quiet s"
  by (cases "localSocket s"; cases "pingIntervalId s")
     (simp_all add: cleanup_def destroy_socket_def Let_def quiet_emit)

lemma quiet_start_exchange [simp]: "quiet (start_exchange i k b s) = quiet s"
  by (simp add: start_exchange_def quiet_emit)

lemma quiet_new_connection [simp]: "quiet (new_connection i b s) = quiet s"
  by (simp add: new_connection_def Let_def quiet_emit)

lemma quiet_loop_head [simp]: "quiet (loop_head i s) = quiet s"
  by (simp add: loop_head_def Let_def split: list.split option.split)

lemma quiet_catch_error [simp]: "quiet (catch_error i e s) = quiet s"
  by (simp add: catch_error_def quiet_emit)

lemma quiet_resolve_connection [simp]: "quiet (resolve_connection i b v s) = quiet s"
  by (simp add: resolve_connection_def split: option.split)

lemma quiet_handleTunnelResponse: "handleTunnelResponse b s = Inr s' \<Longrightarrow> quiet s' = quiet s"
  by (auto simp add: handleTunnelResponse_def quiet_emit split: option.splits)

lemma quiet_complete_response: "complete_response i k c n s = Inr s' \<Longrightarrow> quiet s' = quiet s"
  by (auto simp add: complete_response_def cleanupSocketListeners_def Let_def
      dest!: quiet_handleTunnelResponse split: sum.splits)

lemma quiet_poll_timer: "poll_timer i s = Inr s' \<Longrightarrow> quiet s' = quiet s"
  by (auto simp add: poll_timer_def dest!: quiet_complete_response
      split: invocation.splits if_splits sum.splits)

lemma quiet_run_listeners:
  assumes "\<And>i s s'. f i s = Inr s' \<Longrightarrow> quiet s' = quiet s"
  shows "run_listeners f is s = Inr s' \<Longrightarrow> quiet s' = quiet s"
proof (induction "is" arbitrary: s)
  case Nil
  then show ?case by simp
next
  case (Cons i "is")
  then show ?case using assms by (auto split: sum.splits)
qed

lemma quiet_onData: "onData c i s = Inr s' \<Longrightarrow> quiet s' = quiet s"
  by (auto simp add: onData_def split: invocation.splits)

lemma quiet_onEnd: "onEnd i s = Inr s' \<Longrightarrow> quiet s' = quiet s"
  by (auto simp add: onEnd_def dest!: quiet_complete_response split: invocation.splits if_splits)

lemma quiet_onError: "onError m i s = Inr s' \<Longrightarrow> quiet s' = quiet s"
  by (auto simp add: onError_def cleanupSocketListeners_def quiet_emit split: invocation.splits if_splits)

lemma quiet_local_data: "local_data k c s = Inr s' \<Longrightarrow> quiet s' = quiet s"
  unfolding local_data_def by (rule quiet_run_listeners [OF quiet_onData])

lemma quiet_local_end: "local_end k s = Inr s' \<Longrightarrow> quiet s' = quiet s"
  unfolding local_end_def by (rule quiet_run_listeners [OF quiet_onEnd])

lemma quiet_local_connect: "local_connect k s = Inr s' \<Longrightarrow> quiet s' = quiet s"
  by (auto simp add: local_connect_def Let_def quiet_emit
      split: if_splits option.splits invocation.splits)

lemma quiet_local_error:
  assumes "local_error k m s = Inr s'"
  shows "quiet s' = quiet s"
proof -
  define s1 where "s1 = s\<lparr>sockets := (sockets s)(k := (sockets s k)\<lparr>destroyed := True\<rparr>)\<rparr>"
  define s2 where "s2 = (if base_listeners (sockets s k)
     then (emit (Console_error [Str ''Local socket error:'', Msg (Error m)]) s1)
            \<lparr>connecting := False, localSocket := None,
             sockets := (sockets s1)(k := (sockets s1 k)\<lparr>promise := None\<rparr>)\<rparr>
     else s1)"
  have q2: "quiet s2 = quiet s" by (simp add: s2_def s1_def quiet_emit)
  from assms obtain s3 where r: "run_listeners (onError m) (exchange (sockets s k)) s2 = Inr s3"
    and s': "s' = s3 \<or> (\<exists>i. s' = catch_error i (Error m) s3)"
    unfolding local_error_def Let_def s1_def [symmetric] s2_def [symmetric]
    by (auto split: if_splits option.splits invocation.splits sum.splits)
  from quiet_run_listeners [OF quiet_onError r] have "quiet s3 = quiet s2" .
  with q2 s' show ?thesis by auto
qed

lemma quiet_local_close [simp]: "quiet (local_close k s) = quiet s"
  by (simp add: local_close_def Let_def)

lemma quiet_processRequestQueue [simp]: "quiet (processRequestQueue s) = quiet s"
  by (simp add: processRequestQueue_def)

lemma quiet_handleTunnelRequest [simp]: "quiet (handleTunnelRequest b s) = quiet s"
  by (simp add: handleTunnelRequest_def Let_def quiet_emit split: option.split)

lemma quiet_after_try: "after_try b s = Inr s' \<Longrightarrow> quiet s' = quiet s"
  by (auto simp add: after_try_def quiet_emit split: option.splits if_splits)

lemma quiet_control:
  "control P w m j s = Returns s' \<Longrightarrow> quiet s' = quiet s"
  "control P w m j s = Falls s' \<Longrightarrow> quiet s' = quiet s"
  "control P w m j s = Throws e s' \<Longrightarrow> quiet s' = quiet s"
  by (auto simp add: control_def Let_def quiet_emit split: if_splits sum.splits)

lemma quiet_try_block:
  "try_block P w b bin s = Returns s' \<Longrightarrow> quiet s' = quiet s"
  "try_block P w b bin s = Falls s' \<Longrightarrow> quiet s' = quiet s"
  "try_block P w b bin s = Throws e s' \<Longrightarrow> quiet s' = quiet s"
  by (auto simp add: try_block_def Let_def dest!: quiet_control split: if_splits option.splits)

lemma quiet_on_message:
  assumes "on_message P w b bin s = Inr s'"
  shows "quiet s' = quiet s"
proof (cases "try_block P w b bin s")
  case (Returns s1)
  with assms have "s' = s1" by (simp add: on_message_def)
  with quiet_try_block(1) [of P w b bin s s1] Returns show ?thesis by simp
next
  case (Falls s1)
  with assms have "after_try b s1 = Inr s'" by (simp add: on_message_def)
  from quiet_after_try [OF this] quiet_try_block(2) [of P w b bin s s1] Falls show ?thesis by simp
next
  case (Throws e s1)
  with assms have "after_try b (emit (Console_error [Str ''Error processing message:'', Msg e]) s1) = Inr s'"
    by (simp add: on_message_def)
  from quiet_after_try [OF this] quiet_try_block(3) [of P w b bin s e s1] Throws show ?thesis
    by (simp add: quiet_emit)
qed

lemma quiet_on_open [simp]: "quiet (on_open s) = quiet s"
  by (simp add: on_open_def quiet_emit)

lemma quiet_on_error [simp]: "quiet (on_error m s) = quiet s"
  by (simp add: on_error_def quiet_emit)

lemma quiet_on_pong [simp]: "quiet (on_pong s) = quiet s"
  by (simp add: on_pong_def)

lemma quiet_ping_tick [simp]: "quiet (ping_tick s) = quiet s"
  by (simp add: ping_tick_def quiet_emit split: option.split)

lemma quiet_immediate [simp]: "quiet (immediate s) = quiet s"
  by (cases "immediates s") (simp_all add: immediate_def)

lemma quiet_on_close: "autoConnectInterval s \<le> 10000 \<Longrightarrow> quiet (on_close c r s) = quiet s"
proof -
  assume a: "autoConnectInterval s \<le> 10000"
  let ?s1 = "emit (Console_log [Str ''Tunnel connection closed: '', Val c, Str '' '',
                       (if truthy r then Val r else Str ''Reason not specified'')]) s"
  have "quiet ((cleanup ?s1)\<lparr>ws := None, suspendCommand := None, eofMarker := None\<rparr>) = quiet s"
    by (simp add: quiet_emit)
  then have "autoConnectInterval ((cleanup ?s1)\<lparr>ws := None, suspendCommand := None, eofMarker := None\<rparr>)
      = autoConnectInterval s"
    by (simp add: quiet_def)
  with a show ?thesis
    by (simp add: on_close_def Let_def quiet_emit)
qed

lemma close_fields:
  "reconnect_timers (close s) = reconnect_timers s" "autoConnectInterval (close s) = 0"
  "connects (trace (close s)) = connects (trace s)"
proof -
  have q: "quiet (cleanup s) = quiet s" by simp
  show "reconnect_timers (close s) = reconnect_timers s" "autoConnectInterval (close s) = 0"
    "connects (trace (close s)) = connects (trace s)"
    using q by (simp_all add: close_def Let_def quiet_def emit_def connects_append split: option.split)
qed

lemma step_quiet:
  assumes "reconnect_timers s = 0" and "autoConnectInterval s \<le> 10000" and "step P e s = Inr s'"
  shows "reconnect_timers s' = 0 \<and> autoConnectInterval s' \<le> 10000
         \<and> connects (trace s') = connects (trace s)"
proof (cases e)
  case (Closed w c r)
  with assms(3) have "s' = on_close c r s" by simp
  with quiet_on_close [OF assms(2), of c r] assms(1,2) show ?thesis by (simp add: quiet_def)
next
  case Reconnect_timer
  with assms(1,3) have "s' = s" by (simp add: reconnect_timer_def)
  with assms show ?thesis by simp
next
  case Call_close
  with assms(3) have "s' = close s" by simp
  with close_fields [of s] assms show ?thesis by simp
next
  case (Message w b bin)
  with assms(3) quiet_on_message [of P w b bin s s'] assms(1,2) show ?thesis by (simp add: quiet_def)
next
  case (Poll_timer i)
  with assms(3) quiet_poll_timer [of i s s'] assms(1,2) show ?thesis by (simp add: quiet_def)
next
  case (Local_connect k)
  with assms(3) quiet_local_connect [of k s s'] assms(1,2) show ?thesis by (simp add: quiet_def)
next
  case (Local_data k c)
  with assms(3) quiet_local_data [of k c s s'] assms(1,2) show ?thesis by (simp add: quiet_def)
next
  case (Local_end k)
  with assms(3) quiet_local_end [of k s s'] assms(1,2) show ?thesis by (simp add: quiet_def)
next
  case (Local_error k m)
  with assms(3) quiet_local_error [of k m s s'] assms(1,2) show ?thesis by (simp add: quiet_def)
next
  case (Open w)
  with assms(3) have "quiet s' = quiet s" by auto
  with assms(1,2) show ?thesis by (simp add: quiet_def)
next
  case (Failed w m)
  with assms(3) have "quiet s' = quiet s" by auto
  with assms(1,2) show ?thesis by (simp add: quiet_def)
next
  case (Pong w)
  with assms(3) have "quiet s' = quiet s" by auto
  with assms(1,2) show ?thesis by (simp add: quiet_def)
next
  case Ping_timer
  with assms(3) have "quiet s' = quiet s" by auto
  with assms(1,2) show ?thesis by (simp add: quiet_def)
next
  case Immediate
  with assms(3) have "quiet s' = quiet s" by auto
  with assms(1,2) show ?thesis by (simp add: quiet_def)
next
  case (Local_close k)
  with assms(3) have "quiet s' = quiet s" by auto
  with assms(1,2) show ?thesis by (simp add: quiet_def)
qed

lemma run_quiet:
  "reconnect_timers s = 0 \<Longrightarrow> autoConnectInterval s \<le> 10000 \<Longrightarrow> run P es s = Inr s'
   \<Longrightarrow> connects (trace s') = connects (trace s)"
proof (induction es arbitrary: s)
  case Nil
  then show ?case by simp
next
  case (Cons e es)
  from Cons.prems(3) obtain s1 where s1: "step P e s = Inr s1" "run P es s1 = Inr s'"
    by (auto split: sum.splits)
  from step_quiet [OF Cons.prems(1,2) s1(1)] Cons.IH [OF _ _ s1(2)] show ?case by simp
qed

lemma no_reconnect_after_close:
  assumes "reconnect_timers s = 0" and "run P es (close s) = Inr s'"
  shows "connects (trace s') = connects (trace s)"
  using run_quiet [of "close s" P es s'] assms by (simp add: close_fields)

lemma cleanup_live_socket:
  "localSocket s = Some k \<Longrightarrow> \<not> destroyed (sockets s k) \<Longrightarrow>
   localSocket (cleanup s) = None \<and> destroyed (sockets (cleanup s) k)
   \<and> exchange (sockets (cleanup s) k) = [] \<and> \<not> base_listeners (sockets (cleanup s) k)
   \<and> \<not> connect_cb (sockets (cleanup s) k)"
  by (cases "pingIntervalId s") (simp_all add: cleanup_def destroy_socket_def emit_def Let_def)

lemma cleanup_keeps:
  "suspendCommand (cleanup s) = suspendCommand s" "eofMarker (cleanup s) = eofMarker s"
  "isPrimary (cleanup s) = isPrimary s" "ws (cleanup s) = ws s"
  "autoConnectInterval (cleanup s) = autoConnectInterval s"
  "reconnect_timers (cleanup s) = reconnect_timers s"
  by (cases "localSocket s"; cases "pingIntervalId s";
      simp add: cleanup_def destroy_socket_def emit_def Let_def)+

lemma on_close_unfold:
  "on_close code reason s =
    (let s2 = (cleanup (emit (Console_log [Str ''Tunnel connection closed: '', Val code, Str '' '',
                       (if truthy reason then Val reason else Str ''Reason not specified'')]) s))
                \<lparr>ws := None, suspendCommand := None, eofMarker := None\<rparr>
      in if autoConnectInterval s > 10000
         then (emit (Console_log [Str ''Reconnecting to tunnel in '',
                        Num (seconds (autoConnectInterval s)), Str '' seconds...'']) s2)
                \<lparr>reconnect_timers := Suc (reconnect_timers s)\<rparr>
         else s2)"
  by (simp add: on_close_def Let_def cleanup_keeps emit_def)

lemma on_close_schedules:
  "reconnect_timers (on_close code reason s)
     = (if autoConnectInterval s > 10000 then Suc (reconnect_timers s) else reconnect_timers s)"
  by (simp add: on_close_unfold Let_def emit_def cleanup_keeps)

text \<open>
  C5, as the code has it. On every close of the relay connection the two markers and the
  connection are reset to null, the liveness timer is stopped, the queue is emptied, the
  flags \<open>connecting\<close>, \<open>processing\<close> and \<open>alive\<close> are false, and a live local socket is
  destroyed, stripped of its listeners and dropped; the primary flag keeps its value. A
  reconnect is scheduled exactly when the interval is above 10000. \<open>close()\<close> sets the
  interval to 0, so the close event that follows schedules nothing; and when no reconnect
  timer is pending at the call of \<open>close()\<close>, no later run of events opens a connection
  to the relay again.
\<close>

theorem transport_close_releases_session:
  "suspendCommand (on_close code reason s) = None
   \<and> eofMarker (on_close code reason s) = None
   \<and> isPrimary (on_close code reason s) = isPrimary s
   \<and> ws (on_close code reason s) = None
   \<and> pingIntervalId (on_close code reason s) = None
   \<and> requestQueue (on_close code reason s) = []
   \<and> \<not> connecting (on_close code reason s)
   \<and> \<not> processing (on_close code reason s)
   \<and> \<not> alive (on_close code reason s)
   \<and> (\<forall>k. localSocket s = Some k \<and> \<not> destroyed (sockets s k) \<longrightarrow>
          localSocket (on_close code reason s) = None
          \<and> destroyed (sockets (on_close code reason s) k)
          \<and> exchange (sockets (on_close code reason s) k) = [])
   \<and> reconnect_timers (on_close code reason s)
        = (if autoConnectInterval s > 10000 then Suc (reconnect_timers s) else reconnect_timers s)
   \<and> autoConnectInterval (close s) = 0
   \<and> reconnect_timers (on_close code reason (close s)) = reconnect_timers s
   \<and> (reconnect_timers s = 0 \<longrightarrow>
        (\<forall>es s'. run P es (close s) = Inr s' \<longrightarrow> connects (trace s') = connects (trace s)))"
proof -
  let ?s1 = "emit (Console_log [Str ''Tunnel connection closed: '', Val code, Str '' '',
                       (if truthy reason then Val reason else Str ''Reason not specified'')]) s"
  have sock: "localSocket ?s1 = localSocket s" "sockets ?s1 = sockets s" by (simp_all add: emit_def)
  have keep: "isPrimary ?s1 = isPrimary s" "reconnect_timers ?s1 = reconnect_timers s"
    by (simp_all add: emit_def)
  have a: "suspendCommand (on_close code reason s) = None" "eofMarker (on_close code reason s) = None"
    "isPrimary (on_close code reason s) = isPrimary s" "ws (on_close code reason s) = None"
    "pingIntervalId (on_close code reason s) = None" "requestQueue (on_close code reason s) = []"
    "\<not> connecting (on_close code reason s)" "\<not> processing (on_close code reason s)"
    "\<not> alive (on_close code reason s)"
    by (simp_all add: on_close_unfold Let_def emit_def cleanup_fields cleanup_keeps keep)
  have b: "\<forall>k. localSocket s = Some k \<and> \<not> destroyed (sockets s k) \<longrightarrow>
          localSocket (on_close code reason s) = None
          \<and> destroyed (sockets (on_close code reason s) k)
          \<and> exchange (sockets (on_close code reason s) k) = []"
  proof (intro allI impI)
    fix k assume "localSocket s = Some k \<and> \<not> destroyed (sockets s k)"
    then have "localSocket ?s1 = Some k" "\<not> destroyed (sockets ?s1 k)" by (simp_all add: sock)
    from cleanup_live_socket [OF this]
    show "localSocket (on_close code reason s) = None
          \<and> destroyed (sockets (on_close code reason s) k)
          \<and> exchange (sockets (on_close code reason s) k) = []"
      by (simp add: on_close_unfold Let_def emit_def)
  qed
  have c: "reconnect_timers (on_close code reason s)
        = (if autoConnectInterval s > 10000 then Suc (reconnect_timers s) else reconnect_timers s)"
    by (simp add: on_close_unfold Let_def emit_def cleanup_keeps keep)
  have d: "autoConnectInterval (close s) = 0" by (rule close_fields)
  have e: "reconnect_timers (on_close code reason (close s)) = reconnect_timers s"
    using quiet_on_close [of "close s" code reason] by (simp add: close_fields quiet_def)
  have f: "reconnect_timers s = 0 \<longrightarrow>
        (\<forall>es s'. run P es (close s) = Inr s' \<longrightarrow> connects (trace s') = connects (trace s))"
    using no_reconnect_after_close by blast
  from a b c d e f show ?thesis by blast
qed

theorem transport_close_releases_session_witness:
  "suspendCommand (on_close (JNum 1006) (JStr []) in_flight) = None
   \<and> eofMarker (on_close (JNum 1006) (JStr []) in_flight) = None
   \<and> isPrimary (on_close (JNum 1006) (JStr []) in_flight) = JBool True
   \<and> pingIntervalId (on_close (JNum 1006) (JStr []) in_flight) = None
   \<and> requestQueue (on_close (JNum 1006) (JStr []) in_flight) = []
   \<and> localSocket (on_close (JNum 1006) (JStr []) in_flight) = None
   \<and> destroyed (sockets (on_close (JNum 1006) (JStr []) in_flight) 0)
   \<and> reconnect_timers (on_close (JNum 1006) (JStr []) in_flight) = 1
   \<and> reconnect_timers (on_close (JNum 1006) (JStr []) (close in_flight)) = 0
   \<and> (\<exists>s'. run example_platform [Closed 0 (JNum 1005) (JStr []), Reconnect_timer] (close in_flight) = Inr s'
            \<and> connects (trace s') = [0])"
proof -
  have r: "run example_platform [Closed 0 (JNum 1005) (JStr []), Reconnect_timer] (close in_flight)
      = Inr (reconnect_timer (on_close (JNum 1005) (JStr []) (close in_flight)))"
    by simp
  note t = transport_close_releases_session [of "JNum 1006" "JStr []" in_flight example_platform]
  from t have "\<forall>es s'. run example_platform es (close in_flight) = Inr s'
      \<longrightarrow> connects (trace s') = connects (trace in_flight)"
    by (simp add: in_flight_fields)
  from this [rule_format, OF r]
  have e: "\<exists>s'. run example_platform [Closed 0 (JNum 1005) (JStr []), Reconnect_timer] (close in_flight) = Inr s'
            \<and> connects (trace s') = [0]"
    using r by (simp add: in_flight_fields)
  from t have "suspendCommand (on_close (JNum 1006) (JStr []) in_flight) = None
   \<and> eofMarker (on_close (JNum 1006) (JStr []) in_flight) = None
   \<and> isPrimary (on_close (JNum 1006) (JStr []) in_flight) = JBool True
   \<and> pingIntervalId (on_close (JNum 1006) (JStr []) in_flight) = None
   \<and> requestQueue (on_close (JNum 1006) (JStr []) in_flight) = []
   \<and> localSocket (on_close (JNum 1006) (JStr []) in_flight) = None
   \<and> destroyed (sockets (on_close (JNum 1006) (JStr []) in_flight) 0)
   \<and> reconnect_timers (on_close (JNum 1006) (JStr []) in_flight) = 1
   \<and> reconnect_timers (on_close (JNum 1006) (JStr []) (close in_flight)) = 0"
    by (simp add: in_flight_fields)
  with e show ?thesis by blast
qed

text \<open>C5 as stated fails: after the close the primary flag is still true, not its
  initial value false.\<close>

theorem primary_flag_kept_counterexample:
  "isPrimary (on_close (JNum 1006) (JStr []) (established False)) = JBool True
   \<and> isPrimary (initial example_options None None False) = JBool False"
  by (simp add: session_defs relay_defs on_close_def)

text \<open>\<open>close()\<close> does not clear a reconnect timer that is already pending: the timer
  fires after \<open>close()\<close> and connects again.\<close>

lemma pending_reconnect_survives_close:
  "connected (run example_platform [Closed 0 (JNum 1006) (JStr []), Call_close, Reconnect_timer]
                (established False)) = [0, 1]"
  by (simp add: session_defs relay_defs on_close_def close_def reconnect_timer_def connected_def)

subsection \<open>Liveness\<close>

text \<open>
  C7. While the ping timer runs: a tick that finds the liveness flag false stops the
  timer and closes the relay connection; a tick that finds it true clears it and sends a
  ping; a pong sets it. So two ticks with no pong between them stop the timer and close
  the connection, and the close event that follows schedules a reconnect when the
  interval is above 10000 (and none otherwise); with a pong between them the timer keeps
  running.
\<close>

theorem liveness_heartbeat:
  assumes "pingIntervalId s = Some w"
  shows "(\<not> alive s \<longrightarrow>
            ping_tick s = emit (Ws_close w)
                            (emit (Console_log [Str ''Tunnel connection lost.''])
                               (s\<lparr>pingIntervalId := None\<rparr>)))
       \<and> (alive s \<longrightarrow> ping_tick s = emit (Ws_ping w) (s\<lparr>alive := False\<rparr>))
       \<and> alive (on_pong s) \<and> pingIntervalId (on_pong s) = Some w
       \<and> (alive s \<longrightarrow>
            (\<exists>s'. run P [Ping_timer, Ping_timer] s = Inr s'
               \<and> pingIntervalId s' = None
               \<and> trace s' = trace s @ [Ws_ping w, Console_log [Str ''Tunnel connection lost.''],
                                        Ws_close w]
               \<and> reconnect_timers (on_close code reason s')
                    = (if autoConnectInterval s > 10000 then Suc (reconnect_timers s)
                       else reconnect_timers s)))
       \<and> (alive s \<longrightarrow>
            (\<exists>s'. run P [Ping_timer, Pong w, Ping_timer] s = Inr s'
               \<and> pingIntervalId s' = Some w
               \<and> \<not> alive s'))"
proof -
  have a: "\<not> alive s \<longrightarrow>
            ping_tick s = emit (Ws_close w)
                            (emit (Console_log [Str ''Tunnel connection lost.''])
                               (s\<lparr>pingIntervalId := None\<rparr>))"
    and b: "alive s \<longrightarrow> ping_tick s = emit (Ws_ping w) (s\<lparr>alive := False\<rparr>)"
    using assms by (simp_all add: ping_tick_def)
  have c: "alive (on_pong s)" "pingIntervalId (on_pong s) = Some w"
    using assms by (simp_all add: on_pong_def debug_log_def emit_def)
  have d: "alive s \<longrightarrow>
            (\<exists>s'. run P [Ping_timer, Ping_timer] s = Inr s'
               \<and> pingIntervalId s' = None
               \<and> trace s' = trace s @ [Ws_ping w, Console_log [Str ''Tunnel connection lost.''],
                                        Ws_close w]
               \<and> reconnect_timers (on_close code reason s')
                    = (if autoConnectInterval s > 10000 then Suc (reconnect_timers s)
                       else reconnect_timers s))"
  proof
    assume al: "alive s"
    let ?s' = "ping_tick (ping_tick s)"
    have 1: "run P [Ping_timer, Ping_timer] s = Inr ?s'" by simp
    have 2: "pingIntervalId ?s' = None"
      "trace ?s' = trace s @ [Ws_ping w, Console_log [Str ''Tunnel connection lost.''], Ws_close w]"
      "autoConnectInterval ?s' = autoConnectInterval s" "reconnect_timers ?s' = reconnect_timers s"
      using assms al by (simp_all add: ping_tick_def emit_def)
    have 3: "reconnect_timers (on_close code reason ?s')
        = (if autoConnectInterval s > 10000 then Suc (reconnect_timers s) else reconnect_timers s)"
      using on_close_schedules [of code reason ?s'] 2 by simp
    from 1 2 3 show "\<exists>s'. run P [Ping_timer, Ping_timer] s = Inr s'
               \<and> pingIntervalId s' = None
               \<and> trace s' = trace s @ [Ws_ping w, Console_log [Str ''Tunnel connection lost.''],
                                        Ws_close w]
               \<and> reconnect_timers (on_close code reason s')
                    = (if autoConnectInterval s > 10000 then Suc (reconnect_timers s)
                       else reconnect_timers s)" by blast
  qed
  have e: "alive s \<longrightarrow>
            (\<exists>s'. run P [Ping_timer, Pong w, Ping_timer] s = Inr s'
               \<and> pingIntervalId s' = Some w \<and> \<not> alive s')"
    using assms by (simp add: ping_tick_def on_pong_def debug_log_def emit_def)
  from a b c d e show ?thesis by blast
qed

theorem liveness_heartbeat_witness:
  "ping_tick (in_flight\<lparr>alive := False\<rparr>)
     = emit (Ws_close 0) (emit (Console_log [Str ''Tunnel connection lost.''])
         (in_flight\<lparr>alive := False, pingIntervalId := None\<rparr>))
   \<and> ping_tick in_flight = emit (Ws_ping 0) (in_flight\<lparr>alive := False\<rparr>)
   \<and> alive (on_pong (in_flight\<lparr>alive := False\<rparr>))
   \<and> (\<exists>s'. run example_platform [Ping_timer, Ping_timer] in_flight = Inr s'
          \<and> pingIntervalId s' = None
          \<and> trace s' = trace in_flight @ [Ws_ping 0, Console_log [Str ''Tunnel connection lost.''],
                                           Ws_close 0]
          \<and> reconnect_timers (on_close (JNum 1006) (JStr []) s') = 1)
   \<and> (\<exists>s'. run example_platform [Ping_timer, Pong 0, Ping_timer] in_flight = Inr s'
          \<and> pingIntervalId s' = Some 0 \<and> \<not> alive s')"
proof -
  have a: "pingIntervalId (in_flight\<lparr>alive := False\<rparr>) = Some 0" "pingIntervalId in_flight = Some 0"
    by (simp_all add: in_flight_fields)
  have b: "\<not> alive (in_flight\<lparr>alive := False\<rparr>)" "alive in_flight"
    by (simp_all add: in_flight_fields)
  note dead = liveness_heartbeat [OF a(1), of example_platform "JNum 1006" "JStr []"]
  note up = liveness_heartbeat [OF a(2), of example_platform "JNum 1006" "JStr []"]
  from dead b(1) have "ping_tick (in_flight\<lparr>alive := False\<rparr>)
     = emit (Ws_close 0) (emit (Console_log [Str ''Tunnel connection lost.''])
         (in_flight\<lparr>alive := False\<rparr>\<lparr>pingIntervalId := None\<rparr>))"
    by blast
  then have 1: "ping_tick (in_flight\<lparr>alive := False\<rparr>)
     = emit (Ws_close 0) (emit (Console_log [Str ''Tunnel connection lost.''])
         (in_flight\<lparr>alive := False, pingIntervalId := None\<rparr>))"
    by simp
  from dead have 2: "alive (on_pong (in_flight\<lparr>alive := False\<rparr>))" by blast
  from up b(2) have 3: "ping_tick in_flight = emit (Ws_ping 0) (in_flight\<lparr>alive := False\<rparr>)"
    by blast
  from up b(2) obtain s' where s': "run example_platform [Ping_timer, Ping_timer] in_flight = Inr s'"
    "pingIntervalId s' = None"
    "trace s' = trace in_flight @ [Ws_ping 0, Console_log [Str ''Tunnel connection lost.''], Ws_close 0]"
    "reconnect_timers (on_close (JNum 1006) (JStr []) s')
       = (if autoConnectInterval in_flight > 10000 then Suc (reconnect_timers in_flight)
          else reconnect_timers in_flight)"
    by blast
  from s'(4) have "reconnect_timers (on_close (JNum 1006) (JStr []) s') = 1"
    by (simp add: in_flight_fields)
  with s' have 4: "\<exists>s'. run example_platform [Ping_timer, Ping_timer] in_flight = Inr s'
          \<and> pingIntervalId s' = None
          \<and> trace s' = trace in_flight @ [Ws_ping 0, Console_log [Str ''Tunnel connection lost.''],
                                           Ws_close 0]
          \<and> reconnect_timers (on_close (JNum 1006) (JStr []) s') = 1"
    by blast
  from up b(2) have 5: "\<exists>s'. run example_platform [Ping_timer, Pong 0, Ping_timer] in_flight = Inr s'
          \<and> pingIntervalId s' = Some 0 \<and> \<not> alive s'"
    by blast
  from 1 2 3 4 5 show ?thesis by blast
qed

subsection \<open>close\<close>

text \<open>
  C9. A second \<open>close()\<close> right after the first changes nothing: the state, with the
  effects so far in it, is the state after the first call. No second close frame, no
  second destroy.
\<close>

theorem close_idempotent: "close (close s) = close s"
  by (cases "ws s"; cases "localSocket s"; cases "pingIntervalId s")
     (simp_all add: close_def cleanup_def destroy_socket_def emit_def Let_def)

lemma close_in_flight:
  "trace (close in_flight) = trace in_flight @ [Sock_destroy 0, Ws_close 0]"
  "ws (close in_flight) = None" "localSocket (close in_flight) = None"
  by (simp_all add: close_def cleanup_def destroy_socket_def emit_def Let_def in_flight_fields)

theorem close_idempotent_witness:
  "close (close in_flight) = close in_flight
   \<and> trace (close (close in_flight)) = trace in_flight @ [Sock_destroy 0, Ws_close 0]"
  using close_idempotent [of in_flight] by (simp add: close_in_flight)

subsection \<open>A failed local exchange\<close>

text \<open>
  C8. The call \<open>i\<close> is collecting the response to a request on the cached socket \<open>k\<close>,
  and the next request \<open>r\<close> is queued. The socket emits 'error' and then 'close'. The
  response in flight is not sent, the variable \<open>localSocket\<close> is null and the socket is
  destroyed. At the next tick of the 10 ms timer the loop goes on: it takes \<open>r\<close> from the
  queue and opens a new socket; once that socket is connected, \<open>r\<close> is written to it.
\<close>

theorem local_failure_isolation:
  assumes "invocations s i = Await_response k chunks False chunksLast"
    and "exchange (sockets s k) = [i]" and "base_listeners (sockets s k)"
    and "promise (sockets s k) = None"
    and "localSocket s = Some k"
    and "requestQueue s = r # rest"
  shows "\<exists>s1 s2 s3.
           run P [Local_error k msg, Local_close k] s = Inr s1
         \<and> relay_frames (trace s1) = relay_frames (trace s)
         \<and> localSocket s1 = None \<and> destroyed (sockets s1 k)
         \<and> invocations s1 i = Await_response k chunks True chunksLast
         \<and> requestQueue s1 = r # rest
         \<and> step P (Poll_timer i) s1 = Inr s2
         \<and> localSocket s2 = Some (next_socket s) \<and> \<not> destroyed (sockets s2 (next_socket s))
         \<and> invocations s2 i = Await_connect r \<and> requestQueue s2 = rest
         \<and> step P (Local_connect (next_socket s)) s2 = Inr s3
         \<and> invocations s3 i = Await_response (next_socket s) [] False 0
         \<and> local_writes (trace s3) = local_writes (trace s) @ [(next_socket s, r)]
         \<and> relay_frames (trace s3) = relay_frames (trace s)
         \<and> requestQueue s3 = rest \<and> processing s3 = processing s"
  using assms
  by (simp add: local_error_def local_close_def onError_def cleanupSocketListeners_def
      poll_timer_def loop_head_def new_connection_def local_connect_def resolve_connection_def
      start_exchange_def emit_def debug_log_def Let_def local_writes_append relay_frames_append)

theorem local_failure_isolation_witness:
  "\<exists>s1 s2 s3.
       run example_platform [Local_error 0 ''ECONNRESET'', Local_close 0] in_flight = Inr s1
     \<and> localSocket s1 = None \<and> destroyed (sockets s1 0)
     \<and> step example_platform (Poll_timer 0) s1 = Inr s2
     \<and> localSocket s2 = Some 1 \<and> invocations s2 0 = Await_connect ''R2''
     \<and> step example_platform (Local_connect 1) s2 = Inr s3
     \<and> invocations s3 0 = Await_response 1 [] False 0
     \<and> local_writes (trace s3) = [(0, ''R1''), (1, ''R2'')]
     \<and> relay_frames (trace s3) =
          [Ws_send_text 0 (JObj [(''type'', JStr ''login''), (''domain'', JStr ''d.example''),
                                 (''secret'', JStr ''k''), (''device'', JStr ''default-app'')]),
           Ws_send_text 0 (JObj [(''type'', JStr ''start''), (''usage'', JStr ''private'')])]"
proof -
  from local_failure_isolation [where s = in_flight and i = 0 and k = 0 and chunks = "[]"
      and chunksLast = 0 and r = "''R2''" and rest = "[]" and P = example_platform
      and msg = "''ECONNRESET''"]
  obtain s1 s2 s3 where
    "run example_platform [Local_error 0 ''ECONNRESET'', Local_close 0] in_flight = Inr s1"
    "localSocket s1 = None" "destroyed (sockets s1 0)"
    "step example_platform (Poll_timer 0) s1 = Inr s2"
    "localSocket s2 = Some 1" "invocations s2 0 = Await_connect ''R2''"
    "step example_platform (Local_connect 1) s2 = Inr s3"
    "invocations s3 0 = Await_response 1 [] False 0"
    "local_writes (trace s3) = [(0, ''R1''), (1, ''R2'')]"
    "relay_frames (trace s3) = relay_frames (trace in_flight)"
    by (auto simp add: in_flight_fields simp del: run.simps step.simps)
  then show ?thesis by (auto simp add: in_flight_fields simp del: run.simps step.simps)
qed

text \<open>
  Outside C8: an error before the connection is established. The rejected promise resumes
  the loop at once, which opens a new socket for the next request; the 'close' of the
  failed socket then clears the variable \<open>localSocket\<close>, which by now holds the new socket,
  and the connect callback of the new socket throws on \<open>localSocket.setKeepAlive\<close>.
\<close>

lemma refused_connection_then_connect_throws:
  "run example_platform
     [Message 0 ''R1'' True, Message 0 ''R2'' True, Local_error 0 ''ECONNREFUSED'',
      Local_close 0, Local_connect 1] (established False) = Inl TypeError"
  by (simp add: session_defs relay_defs forward_defs indexOf_def)

subsection \<open>The forwarding loop in order\<close>

lemma forwarding_append: "forwarding (xs @ ys) = forwarding xs @ forwarding ys"
  by (induction xs rule: forwarding.induct) simp_all

lemma run_append:
  "run P (es1 @ es2) s = (case run P es1 s of Inl e \<Rightarrow> Inl e | Inr s1 \<Rightarrow> run P es2 s1)"
  by (induction es1 arbitrary: s) (simp_all split: sum.split)

lemma run_then: "run P es1 s = Inr s1 \<Longrightarrow> run P (es1 @ es2) s = run P es2 s1"
  by (simp add: run_append)

lemma run_single: "run P [e] s = step P e s"
  by (simp split: sum.split)

lemma acc_acc [simp]: "acc (acc s i k cs n) i k cs' n' = acc s i k cs' n'"
  by (simp add: acc_def)

lemma data_step:
  "exchange (sockets s k) = [i] \<Longrightarrow>
   step P (Local_data k c) (acc s i k cs n) = Inr (acc s i k (cs @ [c]) n)"
  by (simp add: local_data_def onData_def acc_def)

lemma poll_waiting:
  "n = 0 \<or> n \<noteq> length cs \<Longrightarrow>
   step P (Poll_timer i) (acc s i k cs n) = Inr (acc s i k cs (length cs))"
  by (auto simp add: poll_timer_def acc_def)

lemma serving_acc:
  assumes "serving s k m i"
  shows "acc s i k [] 0 = s"
proof -
  from assms have "invocations s i = Await_response k [] False 0" by (simp add: serving_def)
  then have "(invocations s)(i := Await_response k [] False 0) = invocations s"
    by (metis fun_upd_triv)
  then show ?thesis by (simp add: acc_def)
qed

lemma quiet_last:
  assumes "serving s k m i" and "eofMarker s = Some E" and "ws s = Some w"
    and "cs \<noteq> []" and "requestQueue s = []"
  shows "\<exists>s'. step P (Poll_timer i) (acc s i k cs (length cs)) = Inr s'
           \<and> forwarding (trace s') = forwarding (trace s) @ [Ws_send_binary w (concat cs @ E)]
           \<and> requestQueue s' = [] \<and> \<not> processing s' \<and> invocations s' i = Returned"
  using assms
  by (simp add: serving_def poll_timer_def complete_response_def cleanupSocketListeners_def
      handleTunnelResponse_def loop_head_def acc_def emit_def debug_log_def Let_def
      forwarding_append)

lemma quiet_next:
  assumes "serving s k m i" and "eofMarker s = Some E" and "ws s = Some w"
    and "cs \<noteq> []" and "requestQueue s = R # rest"
  shows "\<exists>s'. step P (Poll_timer i) (acc s i k cs (length cs)) = Inr s'
           \<and> forwarding (trace s') = forwarding (trace s) @ [Ws_send_binary w (concat cs @ E), Sock_write k R]
           \<and> requestQueue s' = rest \<and> serving s' k m i
           \<and> eofMarker s' = Some E \<and> ws s' = Some w \<and> accepting S s' = accepting S s"
  using assms
  by (simp add: serving_def accepting_def poll_timer_def complete_response_def cleanupSocketListeners_def
      handleTunnelResponse_def loop_head_def start_exchange_def acc_def emit_def debug_log_def Let_def
      forwarding_append)

lemma ended_last:
  assumes "serving s k m i" and "eofMarker s = Some E" and "ws s = Some w"
    and "requestQueue s = []"
  shows "\<exists>s'. run P [Local_end k, Local_close k, Poll_timer i] (acc s i k cs n) = Inr s'
           \<and> forwarding (trace s') = forwarding (trace s) @ [Ws_send_binary w (concat cs @ E)]
           \<and> requestQueue s' = [] \<and> \<not> processing s' \<and> invocations s' i = Returned"
  using assms
  by (simp add: serving_def local_end_def onEnd_def local_close_def poll_timer_def
      complete_response_def cleanupSocketListeners_def
      handleTunnelResponse_def loop_head_def acc_def emit_def debug_log_def Let_def
      forwarding_append)

lemma ended_next:
  assumes "serving s k m i" and "eofMarker s = Some E" and "ws s = Some w"
    and "requestQueue s = R # rest"
  shows "\<exists>s'. run P [Local_end k, Local_close k, Poll_timer i, Local_connect m] (acc s i k cs n) = Inr s'
           \<and> forwarding (trace s') = forwarding (trace s) @ [Ws_send_binary w (concat cs @ E), Sock_write m R]
           \<and> requestQueue s' = rest \<and> serving s' m (Suc m) i
           \<and> eofMarker s' = Some E \<and> ws s' = Some w \<and> accepting S s' = accepting S s"
  using assms
  by (simp add: serving_def accepting_def local_end_def onEnd_def local_close_def poll_timer_def
      complete_response_def cleanupSocketListeners_def local_connect_def resolve_connection_def
      new_connection_def
      handleTunnelResponse_def loop_head_def start_exchange_def acc_def emit_def debug_log_def Let_def
      forwarding_append)

lemma accepting_acc [simp]: "accepting S (acc s i k cs n) = accepting S s"
  by (simp add: accepting_def acc_def)

lemma accepting_queue [simp]: "accepting S (s\<lparr>requestQueue := q\<rparr>) = accepting S s"
  by (simp add: accepting_def)

lemma acc_queue: "(acc s i k cs n)\<lparr>requestQueue := q\<rparr> = acc (s\<lparr>requestQueue := q\<rparr>) i k cs n"
  by (simp add: acc_def)

lemma blind_queue:
  "blind_run P S es s t \<Longrightarrow> blind_run P S es (s\<lparr>requestQueue := q\<rparr>) (t\<lparr>requestQueue := q\<rparr>)"
proof (induction es arbitrary: s)
  case Nil
  then show ?case by simp
next
  case (Cons e es)
  then obtain s1 where s1: "\<forall>q. step P e (s\<lparr>requestQueue := q\<rparr>) = Inr (s1\<lparr>requestQueue := q\<rparr>)"
    "requestQueue s1 = requestQueue s" "blind_run P S es s1 t" and a: "accepting S s"
    by auto
  from Cons.IH [OF s1(3)] have "blind_run P S es (s1\<lparr>requestQueue := q\<rparr>) (t\<lparr>requestQueue := q\<rparr>)" .
  moreover have "\<forall>q'. step P e (s\<lparr>requestQueue := q, requestQueue := q'\<rparr>)
      = Inr (s1\<lparr>requestQueue := q, requestQueue := q'\<rparr>)"
    using s1(1) by simp
  ultimately show ?case using a
    by (simp del: step.simps) (rule exI [of _ "s1\<lparr>requestQueue := q\<rparr>"], simp del: step.simps)
qed

lemma queue_same: "s\<lparr>requestQueue := requestQueue s\<rparr> = s"
  by simp

lemma blind_step:
  assumes "\<forall>q. step P e (s\<lparr>requestQueue := q\<rparr>) = Inr (s1\<lparr>requestQueue := q\<rparr>)"
    and "requestQueue s1 = requestQueue s"
  shows "step P e s = Inr s1"
proof -
  from assms(1) have "step P e (s\<lparr>requestQueue := requestQueue s\<rparr>)
      = Inr (s1\<lparr>requestQueue := requestQueue s\<rparr>)" by blast
  moreover have "s1\<lparr>requestQueue := requestQueue s\<rparr> = s1" using assms(2) by (metis queue_same)
  ultimately show ?thesis by (simp only: queue_same)
qed

lemma blind_run_run: "blind_run P S es s t \<Longrightarrow> run P es s = Inr t \<and> requestQueue t = requestQueue s"
proof (induction es arbitrary: s)
  case Nil
  then show ?case by simp
next
  case (Cons e es)
  then obtain s1 where s1: "\<forall>q. step P e (s\<lparr>requestQueue := q\<rparr>) = Inr (s1\<lparr>requestQueue := q\<rparr>)"
    "requestQueue s1 = requestQueue s" "blind_run P S es s1 t"
    by auto
  from blind_step [OF s1(1,2)] Cons.IH [OF s1(3)] s1(2) show ?case by (simp del: step.simps)
qed

lemma blind_append:
  "blind_run P S es1 s t \<Longrightarrow> blind_run P S es2 t u \<Longrightarrow> blind_run P S (es1 @ es2) s u"
proof (induction es1 arbitrary: s)
  case Nil
  then show ?case by simp
next
  case (Cons e es)
  then obtain s1 where s1: "\<forall>q. step P e (s\<lparr>requestQueue := q\<rparr>) = Inr (s1\<lparr>requestQueue := q\<rparr>)"
    "requestQueue s1 = requestQueue s" "blind_run P S es s1 t" and a: "accepting S s"
    by auto
  from Cons.IH [OF s1(3) Cons.prems(2)] s1(1,2) a show ?case
    by (auto simp del: step.simps)
qed

lemma blind_one:
  assumes "accepting S s" and "accepting S s1"
    and "\<And>q. step P e (s\<lparr>requestQueue := q\<rparr>) = Inr (s1\<lparr>requestQueue := q\<rparr>)"
    and "requestQueue s1 = requestQueue s"
  shows "blind_run P S [e] s s1"
  using assms by (auto simp del: step.simps)

lemma queued_request:
  assumes "accepting S s" and "R \<noteq> []" and "\<not> sublist S R"
  shows "step P (Message w' R True) s = Inr (s\<lparr>requestQueue := requestQueue s @ [R]\<rparr>)"
  using assms
  by (simp add: accepting_def on_message_def try_block_def after_try_def indexOf_found
      handleTunnelRequest_def Let_def)

lemma shuffled_run:
  assumes "blind_run P S L s t" and "\<forall>R \<in> set Rs. R \<noteq> [] \<and> \<not> sublist S R"
    and "es \<in> shuffles (map (\<lambda>R. Message w' R True) Rs) L"
  shows "run P es s = Inr (t\<lparr>requestQueue := requestQueue s @ Rs\<rparr>)"
  using assms
proof (induction es arbitrary: Rs L s t)
  case Nil
  then have "Rs = []" and "L = []" by simp_all
  with Nil.prems(1) show ?case by simp
next
  case (Cons e es)
  from Cons.prems(3) consider
    (message) R Rs' where "Rs = R # Rs'" "e = Message w' R True"
      "es \<in> shuffles (map (\<lambda>R. Message w' R True) Rs') L"
  | (local) L' where "L = e # L'" "es \<in> shuffles (map (\<lambda>R. Message w' R True) Rs) L'"
    unfolding Cons_in_shuffles_iff by (cases Rs; cases L) auto
  then show ?case
  proof cases
    case message
    from Cons.prems(1) have a: "accepting S s" by (cases L) simp_all
    from Cons.prems(2) message(1) have R: "R \<noteq> []" "\<not> sublist S R"
      and Rs': "\<forall>R \<in> set Rs'. R \<noteq> [] \<and> \<not> sublist S R" by simp_all
    let ?s1 = "s\<lparr>requestQueue := requestQueue s @ [R]\<rparr>"
    have 1: "step P e s = Inr ?s1" unfolding message(2) by (rule queued_request [OF a R])
    from blind_queue [OF Cons.prems(1)]
    have "blind_run P S L ?s1 (t\<lparr>requestQueue := requestQueue s @ [R]\<rparr>)" .
    from Cons.IH [OF this Rs' message(3)] 1 show ?thesis
      by (simp add: message(1) del: step.simps)
  next
    case local
    from Cons.prems(1) local(1) obtain s1 where
      s1: "\<forall>q. step P e (s\<lparr>requestQueue := q\<rparr>) = Inr (s1\<lparr>requestQueue := q\<rparr>)"
      "requestQueue s1 = requestQueue s" "blind_run P S L' s1 t"
      by auto
    from blind_step [OF s1(1,2)] Cons.IH [OF s1(3) Cons.prems(2) local(2)] s1(2)
    show ?thesis by (simp del: step.simps)
  qed
qed

lemma blind_data:
  assumes "accepting S s" and "exchange (sockets s k) = [i]"
  shows "blind_run P S (map (Local_data k) b) (acc s i k cs n) (acc s i k (cs @ b) n)"
proof (induction b arbitrary: cs)
  case Nil
  with assms(1) show ?case by simp
next
  case (Cons c b)
  have "\<And>q. step P (Local_data k c) ((acc s i k cs n)\<lparr>requestQueue := q\<rparr>)
      = Inr ((acc s i k (cs @ [c]) n)\<lparr>requestQueue := q\<rparr>)"
    unfolding acc_queue using assms(2) by (intro data_step) simp
  moreover have "requestQueue (acc s i k (cs @ [c]) n) = requestQueue (acc s i k cs n)"
    by (simp add: acc_def)
  ultimately show ?case using Cons.IH [of "cs @ [c]"] assms(1)
    by (simp del: step.simps) blast
qed

lemma blind_poll:
  assumes "accepting S s" and "n = 0 \<or> n \<noteq> length cs"
  shows "blind_run P S [Poll_timer i] (acc s i k cs n) (acc s i k cs (length cs))"
proof -
  have "\<And>q. step P (Poll_timer i) ((acc s i k cs n)\<lparr>requestQueue := q\<rparr>)
      = Inr ((acc s i k cs (length cs))\<lparr>requestQueue := q\<rparr>)"
    unfolding acc_queue by (rule poll_waiting [OF assms(2)])
  moreover have "requestQueue (acc s i k cs (length cs)) = requestQueue (acc s i k cs n)"
    by (simp add: acc_def)
  ultimately show ?thesis using assms(1) by (intro blind_one) simp_all
qed

lemma blind_idle:
  assumes "accepting S s"
  shows "blind_run P S (replicate n (Poll_timer i)) (acc s i k [] 0) (acc s i k [] 0)"
proof (induction n)
  case 0
  with assms show ?case by simp
next
  case (Suc n)
  from blind_append [OF blind_poll [OF assms, of 0 "[]" P i k] ] Suc show ?case by simp
qed

lemma blind_burst:
  assumes "accepting S s" and "exchange (sockets s k) = [i]" and "b \<noteq> []"
  shows "blind_run P S (burst_events k i b) (acc s i k cs (length cs))
           (acc s i k (cs @ b) (length (cs @ b)))"
proof -
  have "length cs = 0 \<or> length cs \<noteq> length (cs @ b)" using assms(3) by simp
  from blind_append [OF blind_data [OF assms(1,2)] blind_poll [OF assms(1) this]]
  show ?thesis by (simp add: burst_events_def)
qed

lemma blind_bursts:
  assumes "accepting S s" and "exchange (sockets s k) = [i]" and "[] \<notin> set bs"
  shows "blind_run P S (concat (map (burst_events k i) bs)) (acc s i k cs (length cs))
           (acc s i k (cs @ concat bs) (length (cs @ concat bs)))"
  using assms(3)
proof (induction bs arbitrary: cs)
  case Nil
  with assms(1) show ?case by simp
next
  case (Cons b bs)
  then have b: "b \<noteq> []" and bs: "[] \<notin> set bs" by auto
  from blind_append [OF blind_burst [OF assms(1,2) b, of P cs] Cons.IH [OF bs, of "cs @ b"]]
  show ?case by simp
qed

lemma blind_waiting:
  assumes "accepting S s" and "serving s k m i" and "well_timed a"
  shows "blind_run P S (waiting_events k i a) s (acc s i k (response_chunks a) (chunks_seen a))"
proof -
  from assms(2) have ex: "exchange (sockets s k) = [i]" by (simp add: serving_def)
  have idle: "blind_run P S (replicate n (Poll_timer i)) s (acc s i k [] 0)" for n
    using blind_idle [OF assms(1), of P n i k] serving_acc [OF assms(2)] by simp
  have bursts: "[] \<notin> set bs \<Longrightarrow> blind_run P S (concat (map (burst_events k i) bs)) (acc s i k [] 0)
      (acc s i k (concat bs) (length (concat bs)))" for bs
    using blind_bursts [OF assms(1) ex, of bs P "[]"] by simp
  show ?thesis
  proof (cases a)
    case (Quiet n bs)
    with assms(3) have "[] \<notin> set bs" by simp
    from blind_append [OF idle bursts [OF this]] show ?thesis by (simp add: Quiet)
  next
    case (Ended n bs l)
    with assms(3) have "[] \<notin> set bs" by simp
    from blind_append [OF blind_append [OF idle bursts [OF this]] blind_data [OF assms(1) ex]]
    show ?thesis by (simp add: Ended)
  qed
qed

lemma waiting_run:
  assumes "accepting S s" and "serving s k m i" and "well_timed a"
  shows "run P (waiting_events k i a) s = Inr (acc s i k (response_chunks a) (chunks_seen a))"
  using blind_run_run [OF blind_waiting [OF assms]] by simp

lemma first_request_cached:
  assumes "\<not> has_app s" and "\<not> processing s" and "requestQueue s = []"
    and "localSocket s = Some k" and "\<not> destroyed (sockets s k)" and "exchange (sockets s k) = []"
    and "\<not> connecting s" and "suspendCommand s = Some S" and "R \<noteq> []" and "\<not> sublist S R"
  shows "\<exists>s'. step P (Message w' R True) s = Inr s'
           \<and> forwarding (trace s') = forwarding (trace s) @ [Sock_write k R]
           \<and> requestQueue s' = [] \<and> accepting S s'
           \<and> serving s' k (next_socket s) (next_invocation s)
           \<and> eofMarker s' = eofMarker s \<and> ws s' = ws s"
  using assms
  by (simp add: on_message_def try_block_def after_try_def indexOf_found handleTunnelRequest_def
        processRequestQueue_def loop_head_def start_exchange_def emit_def debug_log_def
        Let_def forwarding_append serving_def accepting_def)

lemma first_request_new:
  assumes "\<not> has_app s" and "\<not> processing s" and "requestQueue s = []"
    and "\<not> live s (localSocket s)"
    and "\<not> connecting s" and "suspendCommand s = Some S" and "R \<noteq> []" and "\<not> sublist S R"
  shows "\<exists>s'. step P (Message w' R True) s = Inr s'
           \<and> forwarding (trace s') = forwarding (trace s)
           \<and> requestQueue s' = [] \<and> accepting S s'
           \<and> invocations s' (next_invocation s) = Await_connect R
           \<and> localSocket s' = Some (next_socket s)
           \<and> connect_cb (sockets s' (next_socket s))
           \<and> promise (sockets s' (next_socket s)) = Some (next_invocation s)
           \<and> exchange (sockets s' (next_socket s)) = []
           \<and> \<not> destroyed (sockets s' (next_socket s))
           \<and> next_socket s' = Suc (next_socket s)
           \<and> eofMarker s' = eofMarker s \<and> ws s' = ws s"
  using assms
  by (cases "localSocket s")
     (simp_all add: on_message_def try_block_def after_try_def indexOf_found handleTunnelRequest_def
        processRequestQueue_def loop_head_def new_connection_def live_def emit_def debug_log_def
        Let_def forwarding_append accepting_def)

lemma connected_first:
  assumes "invocations s i = Await_connect R" and "localSocket s = Some k"
    and "connect_cb (sockets s k)" and "promise (sockets s k) = Some i"
    and "exchange (sockets s k) = []" and "\<not> destroyed (sockets s k)"
    and "next_socket s = m" and "accepting S s"
  shows "\<exists>s'. blind_run P S [Local_connect k] s s'
           \<and> forwarding (trace s') = forwarding (trace s) @ [Sock_write k R]
           \<and> serving s' k m i \<and> accepting S s'
           \<and> eofMarker s' = eofMarker s \<and> ws s' = ws s"
proof -
  define s' where "s' = start_exchange i k R
     ((emit (Sock_setKeepAlive k)
        (debug_log [Str ''Connected to local HTTP server'']
           (s\<lparr>sockets := (sockets s)(k := (sockets s k)\<lparr>connect_cb := False\<rparr>)\<rparr>)))
       \<lparr>connecting := False,
        sockets := (sockets s)(k := (sockets s k)\<lparr>connect_cb := False, promise := None\<rparr>)\<rparr>)"
  have 1: "step P (Local_connect k) (s\<lparr>requestQueue := q\<rparr>) = Inr (s'\<lparr>requestQueue := q\<rparr>)" for q
    using assms
    by (simp add: s'_def local_connect_def resolve_connection_def start_exchange_def emit_def
        debug_log_def Let_def)
  have 2: "requestQueue s' = requestQueue s"
    by (simp add: s'_def start_exchange_def emit_def debug_log_def)
  have 3: "accepting S s'"
    using assms(8) by (simp add: s'_def start_exchange_def emit_def debug_log_def accepting_def)
  have 4: "forwarding (trace s') = forwarding (trace s) @ [Sock_write k R]"
    "serving s' k m i" "eofMarker s' = eofMarker s" "ws s' = ws s"
    using assms
    by (simp_all add: s'_def start_exchange_def emit_def debug_log_def forwarding_append serving_def)
  from blind_one [OF assms(8) 3 1 2] 3 4 show ?thesis by blast
qed

lemma first_phase:
  assumes "\<not> has_app s" and "\<not> processing s" and "requestQueue s = []" and "\<not> connecting s"
    and "\<forall>k. localSocket s = Some k \<and> \<not> destroyed (sockets s k) \<longrightarrow> exchange (sockets s k) = []"
    and "suspendCommand s = Some S" and "R \<noteq> []" and "\<not> sublist S R"
  shows "\<exists>s1 sb. step P (Message w' R True) s = Inr s1 \<and> requestQueue s1 = []
           \<and> blind_run P S (connect_events s) s1 sb
           \<and> forwarding (trace sb) = forwarding (trace s) @ [Sock_write (first_socket s) R]
           \<and> serving sb (first_socket s) (first_fresh s) (next_invocation s) \<and> accepting S sb
           \<and> eofMarker sb = eofMarker s \<and> ws sb = ws s"
proof (cases "live s (localSocket s)")
  case True
  then obtain k where k: "localSocket s = Some k" "\<not> destroyed (sockets s k)"
    by (cases "localSocket s") (simp_all add: live_def)
  with assms(5) have ex: "exchange (sockets s k) = []" by simp
  from True k have c: "connect_events s = []" "first_socket s = k" "first_fresh s = next_socket s"
    by (simp_all add: connect_events_def first_socket_def first_fresh_def)
  from first_request_cached [OF assms(1,2,3) k ex assms(4,6,7,8), of P w'] obtain s1 where
    "step P (Message w' R True) s = Inr s1"
    "forwarding (trace s1) = forwarding (trace s) @ [Sock_write k R]"
    "requestQueue s1 = []" "accepting S s1" "serving s1 k (next_socket s) (next_invocation s)"
    "eofMarker s1 = eofMarker s" "ws s1 = ws s"
    by blast
  then show ?thesis unfolding c by (intro exI [of _ s1]) simp
next
  case False
  then have c: "connect_events s = [Local_connect (next_socket s)]"
    "first_socket s = next_socket s" "first_fresh s = Suc (next_socket s)"
    by (simp_all add: connect_events_def first_socket_def first_fresh_def live_def
        split: option.splits)
  from first_request_new [OF assms(1,2,3) False assms(4,6,7,8), of P w'] obtain s1 where
    s1: "step P (Message w' R True) s = Inr s1" "forwarding (trace s1) = forwarding (trace s)"
      "requestQueue s1 = []" "accepting S s1"
      "invocations s1 (next_invocation s) = Await_connect R"
      "localSocket s1 = Some (next_socket s)" "connect_cb (sockets s1 (next_socket s))"
      "promise (sockets s1 (next_socket s)) = Some (next_invocation s)"
      "exchange (sockets s1 (next_socket s)) = []" "\<not> destroyed (sockets s1 (next_socket s))"
      "next_socket s1 = Suc (next_socket s)" "eofMarker s1 = eofMarker s" "ws s1 = ws s"
    by blast
  from connected_first [OF s1(5,6,7,8,9,10,11,4), of P] obtain sb where
    "blind_run P S [Local_connect (next_socket s)] s1 sb"
    "forwarding (trace sb) = forwarding (trace s1) @ [Sock_write (next_socket s) R]"
    "serving sb (next_socket s) (Suc (next_socket s)) (next_invocation s)" "accepting S sb"
    "eofMarker sb = eofMarker s1" "ws sb = ws s1"
    by blast
  with s1 show ?thesis unfolding c by (intro exI [of _ s1] exI [of _ sb]) simp
qed

lemma closing_last:
  assumes "serving s k m i" and "well_timed a" and "eofMarker s = Some E" and "ws s = Some w"
    and "requestQueue s = []"
  shows "\<exists>s'. run P (closing_events k i a) (acc s i k (response_chunks a) (chunks_seen a)) = Inr s'
           \<and> forwarding (trace s') = forwarding (trace s) @ [Ws_send_binary w (response_bytes a @ E)]
           \<and> requestQueue s' = [] \<and> \<not> processing s'"
proof (cases a)
  case (Quiet n bs)
  with assms(2) have "concat bs \<noteq> []" by (cases bs) auto
  from quiet_last [OF assms(1,3,4) this assms(5), of P] show ?thesis
    by (auto simp add: Quiet response_bytes_def simp del: step.simps)
next
  case (Ended n bs l)
  from ended_last [OF assms(1,3,4,5), of P "concat bs @ l" "length (concat bs)"] show ?thesis
    by (auto simp add: Ended response_bytes_def simp del: run.simps)
qed

lemma closing_next:
  assumes "serving s k m i" and "well_timed a" and "eofMarker s = Some E" and "ws s = Some w"
    and "requestQueue s = R # rest" and "accepting S s"
  shows "\<exists>s'. run P (closing_events k i a @ reconnect_events m a)
                 (acc s i k (response_chunks a) (chunks_seen a)) = Inr s'
           \<and> forwarding (trace s') = forwarding (trace s)
                @ [Ws_send_binary w (response_bytes a @ E), Sock_write (socket_after k m a) R]
           \<and> requestQueue s' = rest \<and> serving s' (socket_after k m a) (fresh_after m a) i
           \<and> eofMarker s' = Some E \<and> ws s' = Some w \<and> accepting S s'"
proof (cases a)
  case (Quiet n bs)
  with assms(2) have "concat bs \<noteq> []" by (cases bs) auto
  from quiet_next [OF assms(1,3,4) this assms(5), of P S] assms(6) show ?thesis
    by (auto simp add: Quiet response_bytes_def simp del: step.simps)
next
  case (Ended n bs l)
  from ended_next [OF assms(1,3,4,5), of P "concat bs @ l" "length (concat bs)" S] assms(6)
  show ?thesis
    by (auto simp add: Ended response_bytes_def simp del: run.simps)
qed

lemma later_run:
  assumes "serving s k m i" and "accepting S s" and "eofMarker s = Some E" and "ws s = Some w"
    and "length as = length (requestQueue s)" and "well_timed a" and "\<forall>a \<in> set as. well_timed a"
  shows "\<exists>s'. run P (later_events k m i a as) (acc s i k (response_chunks a) (chunks_seen a)) = Inr s'
           \<and> forwarding (trace s') = forwarding (trace s)
                @ Ws_send_binary w (response_bytes a @ E)
                  # paired (socket_after k m a) (fresh_after m a) w E (requestQueue s) as
           \<and> requestQueue s' = [] \<and> \<not> processing s'"
  using assms
proof (induction as arbitrary: s k m a)
  case Nil
  then have q: "requestQueue s = []" by simp
  from closing_last [OF Nil.prems(1,6,3,4) q, of P] show ?case by (auto simp add: q)
next
  case (Cons b bs)
  then have wb: "well_timed b" and wbs: "\<forall>a \<in> set bs. well_timed a" by simp_all
  from Cons.prems(5) obtain R rest where q: "requestQueue s = R # rest"
    by (cases "requestQueue s") simp_all
  let ?k = "socket_after k m a" and ?m = "fresh_after m a"
  from closing_next [OF Cons.prems(1,6,3,4) q Cons.prems(2), of P] obtain s1
    where s1: "run P (closing_events k i a @ reconnect_events m a)
                 (acc s i k (response_chunks a) (chunks_seen a)) = Inr s1"
      "forwarding (trace s1) = forwarding (trace s)
         @ [Ws_send_binary w (response_bytes a @ E), Sock_write ?k R]"
      "requestQueue s1 = rest" "serving s1 ?k ?m i"
      "eofMarker s1 = Some E" "ws s1 = Some w" "accepting S s1"
    by blast
  from Cons.prems(5) q s1(3) have len: "length bs = length (requestQueue s1)" by simp
  note w1 = waiting_run [OF s1(7,4) wb, of P]
  from Cons.IH [OF s1(4,7,5,6) len wb wbs] obtain s' where
    s': "run P (later_events ?k ?m i b bs) (acc s1 i ?k (response_chunks b) (chunks_seen b)) = Inr s'"
      "forwarding (trace s') = forwarding (trace s1)
         @ Ws_send_binary w (response_bytes b @ E)
           # paired (socket_after ?k ?m b) (fresh_after ?m b) w E (requestQueue s1) bs"
      "requestQueue s' = []" "\<not> processing s'"
    by blast
  have e: "later_events k m i a (b # bs)
      = (closing_events k i a @ reconnect_events m a) @ (waiting_events ?k i b @ later_events ?k ?m i b bs)"
    by simp
  have "run P (later_events k m i a (b # bs)) (acc s i k (response_chunks a) (chunks_seen a)) = Inr s'"
    unfolding e run_then [OF s1(1)] run_then [OF w1] by (rule s'(1))
  with s1 s' q show ?case by simp
qed

lemma local_writes_forwarding: "local_writes (forwarding es) = local_writes es"
  by (induction es rule: forwarding.induct) simp_all

lemma relay_frames_forwarding: "relay_frames (forwarding es) = relay_frames es"
  by (induction es rule: forwarding.induct) simp_all

lemma local_writes_paired:
  "length as = length Rs \<Longrightarrow> map snd (local_writes (paired k m w E Rs as)) = Rs"
  by (induction k m w E Rs as rule: paired.induct) simp_all

lemma relay_frames_paired:
  "length as = length Rs \<Longrightarrow>
   relay_frames (paired k m w E Rs as) = map (\<lambda>a. Ws_send_binary w (response_bytes a @ E)) as"
  by (induction k m w E Rs as rule: paired.induct) simp_all

text \<open>
  C1, as the code has it. No app is attached, the markers are stored and the forwarding
  loop is idle: not processing, the queue empty, no connection attempt under way, and the
  cached local socket, if there is a live one, carries no listener of an exchange. The
  payloads \<open>R1\<close> and \<open>Rs\<close> (not empty, none containing the suspend marker) arrive in that
  order, \<open>Rs\<close> at any moments before the first response is complete: \<open>es\<close> is any
  interleaving of them with the 'connect' of the new local socket, when one is needed, and
  with the chunks and ticks of the first response. The local server answers each request,
  either with chunks and then silence for a tick, or with chunks and the end of the stream,
  the 'close' of the socket coming before the next tick. The loop writes the payloads to the
  local server in the order of arrival and sends one frame per request in the same order,
  each made of the chunks of its response followed by the eof marker: write, response,
  write, response, and so on.
\<close>

theorem fifo_forwarding:
  assumes "\<not> has_app s" and "\<not> processing s" and "requestQueue s = []" and "\<not> connecting s"
    and "\<forall>k. localSocket s = Some k \<and> \<not> destroyed (sockets s k) \<longrightarrow> exchange (sockets s k) = []"
    and "suspendCommand s = Some S" and "eofMarker s = Some E" and "ws s = Some w"
    and "\<forall>R \<in> set (R1 # Rs). R \<noteq> [] \<and> \<not> sublist S R"
    and "length as = length Rs" and "\<forall>a \<in> set (a1 # as). well_timed a"
    and "es \<in> shuffles (map (\<lambda>R. Message w' R True) Rs)
                 (connect_events s @ waiting_events (first_socket s) (next_invocation s) a1)"
  shows "\<exists>s'. run P (Message w' R1 True # es
                     @ later_events (first_socket s) (first_fresh s) (next_invocation s) a1 as) s
                = Inr s'
           \<and> forwarding (trace s')
               = forwarding (trace s) @ paired (first_socket s) (first_fresh s) w E (R1 # Rs) (a1 # as)
           \<and> map snd (local_writes (trace s')) = map snd (local_writes (trace s)) @ R1 # Rs
           \<and> relay_frames (trace s')
               = relay_frames (trace s)
                 @ map (\<lambda>a. Ws_send_binary w (response_bytes a @ E)) (a1 # as)
           \<and> requestQueue s' = [] \<and> \<not> processing s'"
proof -
  let ?k = "first_socket s" and ?m = "first_fresh s" and ?i = "next_invocation s"
  from assms(9) have R1: "R1 \<noteq> []" "\<not> sublist S R1"
    and Rs: "\<forall>R \<in> set Rs. R \<noteq> [] \<and> \<not> sublist S R" by simp_all
  from assms(11) have a1: "well_timed a1" and as: "\<forall>a \<in> set as. well_timed a" by simp_all
  from first_phase [OF assms(1,2,3,4,5,6) R1, of P w'] obtain s1 sb where
    s1: "step P (Message w' R1 True) s = Inr s1" "requestQueue s1 = []"
      "blind_run P S (connect_events s) s1 sb"
      "forwarding (trace sb) = forwarding (trace s) @ [Sock_write ?k R1]"
      "serving sb ?k ?m ?i" "accepting S sb" "eofMarker sb = eofMarker s" "ws sb = ws s"
    by blast
  let ?t = "acc sb ?i ?k (response_chunks a1) (chunks_seen a1)"
  from blind_append [OF s1(3) blind_waiting [OF s1(6,5) a1]]
  have "blind_run P S (connect_events s @ waiting_events ?k ?i a1) s1 ?t" .
  from shuffled_run [OF this Rs assms(12)] s1(2)
  have es: "run P es s1 = Inr (?t\<lparr>requestQueue := Rs\<rparr>)" by simp
  let ?b = "sb\<lparr>requestQueue := Rs\<rparr>"
  have t: "?t\<lparr>requestQueue := Rs\<rparr> = acc ?b ?i ?k (response_chunks a1) (chunks_seen a1)"
    by (rule acc_queue)
  have b: "serving ?b ?k ?m ?i" "accepting S ?b" "eofMarker ?b = Some E" "ws ?b = Some w"
    "length as = length (requestQueue ?b)"
    using s1(5,6,7,8) assms(7,8,10) by (simp_all add: serving_def)
  from later_run [OF b a1 as, of P] obtain s' where
    s': "run P (later_events ?k ?m ?i a1 as) (acc ?b ?i ?k (response_chunks a1) (chunks_seen a1))
           = Inr s'"
      "forwarding (trace s') = forwarding (trace ?b)
         @ Ws_send_binary w (response_bytes a1 @ E)
           # paired (socket_after ?k ?m a1) (fresh_after ?m a1) w E (requestQueue ?b) as"
      "requestQueue s' = []" "\<not> processing s'"
    by blast
  have "run P (es @ later_events ?k ?m ?i a1 as) s1 = Inr s'"
    unfolding run_then [OF es] t by (rule s'(1))
  with s1(1) have run: "run P (Message w' R1 True # es @ later_events ?k ?m ?i a1 as) s = Inr s'"
    by (simp del: step.simps)
  have fw: "forwarding (trace s') = forwarding (trace s) @ paired ?k ?m w E (R1 # Rs) (a1 # as)"
    using s'(2) s1(4) by simp
  have len: "length (a1 # as) = length (R1 # Rs)" using assms(10) by simp
  have "local_writes (forwarding (trace s'))
      = local_writes (forwarding (trace s)) @ local_writes (paired ?k ?m w E (R1 # Rs) (a1 # as))"
    unfolding fw by (rule local_writes_append)
  then have lw: "map snd (local_writes (trace s')) = map snd (local_writes (trace s)) @ R1 # Rs"
    unfolding local_writes_forwarding using local_writes_paired [OF len, of ?k ?m w E] by simp
  have "relay_frames (forwarding (trace s'))
      = relay_frames (forwarding (trace s)) @ relay_frames (paired ?k ?m w E (R1 # Rs) (a1 # as))"
    unfolding fw by (rule relay_frames_append)
  then have rf: "relay_frames (trace s')
      = relay_frames (trace s) @ map (\<lambda>a. Ws_send_binary w (response_bytes a @ E)) (a1 # as)"
    unfolding relay_frames_forwarding using relay_frames_paired [OF len, of ?k ?m w E] by simp
  from run fw lw rf s'(3,4) show ?thesis by blast
qed

theorem fifo_forwarding_witness:
  "(\<exists>s'. run example_platform
           [Message 0 ''R1'' True, Local_connect 0, Local_data 0 ''a'', Message 0 ''R2'' True,
            Local_data 0 ''b'', Poll_timer 0, Message 0 ''R3'' True, Local_data 0 ''c'',
            Poll_timer 0, Poll_timer 0,
            Poll_timer 0, Local_data 0 ''d'', Local_end 0, Local_close 0, Poll_timer 0,
            Local_connect 1,
            Local_data 1 ''e'', Poll_timer 0, Poll_timer 0]
           (established False) = Inr s'
      \<and> forwarding (trace s') =
           [Ws_send_text 0 (JObj [(''type'', JStr ''login''), (''domain'', JStr ''d.example''),
                                  (''secret'', JStr ''k''), (''device'', JStr ''default-app'')]),
            Ws_send_text 0 (JObj [(''type'', JStr ''start''), (''usage'', JStr ''private'')]),
            Sock_write 0 ''R1'', Ws_send_binary 0 ''abcE'',
            Sock_write 0 ''R2'', Ws_send_binary 0 ''dE'',
            Sock_write 1 ''R3'', Ws_send_binary 0 ''eE'']
      \<and> requestQueue s' = [] \<and> \<not> processing s')
   \<and> (\<exists>s'. run example_platform
           [Message 0 ''R1'' True, Local_data 0 ''a'', Message 0 ''R2'' True, Local_end 0,
            Local_close 0, Poll_timer 1, Local_connect 1, Local_data 1 ''b'', Poll_timer 1,
            Poll_timer 1]
           kept_alive = Inr s'
      \<and> forwarding (trace s') =
           [Ws_send_text 0 (JObj [(''type'', JStr ''login''), (''domain'', JStr ''d.example''),
                                  (''secret'', JStr ''k''), (''device'', JStr ''default-app'')]),
            Ws_send_text 0 (JObj [(''type'', JStr ''start''), (''usage'', JStr ''private'')]),
            Sock_write 0 ''R0'', Ws_send_binary 0 ''zE'',
            Sock_write 0 ''R1'', Ws_send_binary 0 ''aE'',
            Sock_write 1 ''R2'', Ws_send_binary 0 ''bE'']
      \<and> requestQueue s' = [] \<and> \<not> processing s')"
proof -
  have r: "\<forall>R \<in> set [''R1'', ''R2'', ''R3'']. R \<noteq> [] \<and> \<not> sublist ''S'' R"
    "\<forall>R \<in> set [''R1'', ''R2'']. R \<noteq> [] \<and> \<not> sublist ''S'' R"
    by (simp_all add: sublist_Cons_right)
  have a: "\<forall>a \<in> set [Quiet 0 [[''a'', ''b''], [''c'']], Ended 1 [] [''d''], Quiet 0 [[''e'']]].
             well_timed a"
    "\<forall>a \<in> set [Ended 0 [] [''a''], Quiet 0 [[''b'']]]. well_timed a" by simp_all
  have f: "\<not> live (established False) (localSocket (established False))"
    "first_socket (established False) = 0" "first_fresh (established False) = 1"
    "connect_events (established False) = [Local_connect 0]"
    "\<forall>k. localSocket (established False) = Some k \<and> \<not> destroyed (sockets (established False) k)
       \<longrightarrow> exchange (sockets (established False) k) = []"
    using established_fields(3) [of False]
    by (auto simp add: first_socket_def first_fresh_def connect_events_def established_fields
        live_def split: option.splits)
  have g: "first_socket kept_alive = 0" "first_fresh kept_alive = 1"
    "connect_events kept_alive = []"
    "\<forall>k. localSocket kept_alive = Some k \<and> \<not> destroyed (sockets kept_alive k)
       \<longrightarrow> exchange (sockets kept_alive k) = []"
    by (simp_all add: first_socket_def first_fresh_def connect_events_def kept_alive_fields live_def)
  have 1: "[Local_connect 0, Local_data 0 ''a'', Message 0 ''R2'' True,
            Local_data 0 ''b'', Poll_timer 0, Message 0 ''R3'' True, Local_data 0 ''c'',
            Poll_timer 0]
      \<in> shuffles (map (\<lambda>R. Message 0 R True) [''R2'', ''R3''])
          (connect_events (established False)
           @ waiting_events (first_socket (established False)) (next_invocation (established False))
               (Quiet 0 [[''a'', ''b''], [''c'']]))"
    by (simp add: f established_fields burst_events_def Cons_in_shuffles_iff)
  have 2: "[Local_data 0 ''a'', Message 0 ''R2'' True]
      \<in> shuffles (map (\<lambda>R. Message 0 R True) [''R2''])
          (connect_events kept_alive
           @ waiting_events (first_socket kept_alive) (next_invocation kept_alive)
               (Ended 0 [] [''a'']))"
    by (simp add: g kept_alive_fields Cons_in_shuffles_iff)
  from fifo_forwarding [where s = "established False" and P = example_platform and w' = 0
      and ?R1.0 = "''R1''" and Rs = "[''R2'', ''R3'']" and ?a1.0 = "Quiet 0 [[''a'', ''b''], [''c'']]"
      and as = "[Ended 1 [] [''d''], Quiet 0 [[''e'']]]" and S = "''S''" and E = "''E''" and w = 0,
      OF _ _ _ _ f(5) _ _ _ r(1) _ a(1) 1]
  have A: "\<exists>s'. run example_platform
           [Message 0 ''R1'' True, Local_connect 0, Local_data 0 ''a'', Message 0 ''R2'' True,
            Local_data 0 ''b'', Poll_timer 0, Message 0 ''R3'' True, Local_data 0 ''c'',
            Poll_timer 0, Poll_timer 0,
            Poll_timer 0, Local_data 0 ''d'', Local_end 0, Local_close 0, Poll_timer 0,
            Local_connect 1,
            Local_data 1 ''e'', Poll_timer 0, Poll_timer 0]
           (established False) = Inr s'
      \<and> forwarding (trace s') =
           [Ws_send_text 0 (JObj [(''type'', JStr ''login''), (''domain'', JStr ''d.example''),
                                  (''secret'', JStr ''k''), (''device'', JStr ''default-app'')]),
            Ws_send_text 0 (JObj [(''type'', JStr ''start''), (''usage'', JStr ''private'')]),
            Sock_write 0 ''R1'', Ws_send_binary 0 ''abcE'',
            Sock_write 0 ''R2'', Ws_send_binary 0 ''dE'',
            Sock_write 1 ''R3'', Ws_send_binary 0 ''eE'']
      \<and> requestQueue s' = [] \<and> \<not> processing s'"
    by (auto simp add: f established_fields established_forwarding burst_events_def
        response_bytes_def simp del: run.simps)
  from fifo_forwarding [where s = kept_alive and P = example_platform and w' = 0
      and ?R1.0 = "''R1''" and Rs = "[''R2'']" and ?a1.0 = "Ended 0 [] [''a'']"
      and as = "[Quiet 0 [[''b'']]]" and S = "''S''" and E = "''E''" and w = 0,
      OF _ _ _ _ g(4) _ _ _ r(2) _ a(2) 2]
  have B: "\<exists>s'. run example_platform
           [Message 0 ''R1'' True, Local_data 0 ''a'', Message 0 ''R2'' True, Local_end 0,
            Local_close 0, Poll_timer 1, Local_connect 1, Local_data 1 ''b'', Poll_timer 1,
            Poll_timer 1]
           kept_alive = Inr s'
      \<and> forwarding (trace s') =
           [Ws_send_text 0 (JObj [(''type'', JStr ''login''), (''domain'', JStr ''d.example''),
                                  (''secret'', JStr ''k''), (''device'', JStr ''default-app'')]),
            Ws_send_text 0 (JObj [(''type'', JStr ''start''), (''usage'', JStr ''private'')]),
            Sock_write 0 ''R0'', Ws_send_binary 0 ''zE'',
            Sock_write 0 ''R1'', Ws_send_binary 0 ''aE'',
            Sock_write 1 ''R2'', Ws_send_binary 0 ''bE'']
      \<and> requestQueue s' = [] \<and> \<not> processing s'"
    by (auto simp add: g kept_alive_fields burst_events_def response_bytes_def
        simp del: run.simps)
  from A B show ?thesis by blast
qed

text \<open>C1 as stated fails when an app is attached: the second payload is written to the
  local socket at once, before the first, and only one response frame is ever sent.\<close>

theorem write_through_counterexample:
  "written (run example_platform
              [Message 0 ''R1'' True, Message 0 ''R2'' True, Local_connect 0,
               Local_data 0 ''a'', Poll_timer 0, Poll_timer 0, Poll_timer 0, Poll_timer 0]
              (established True))
     = [(0, ''R2''), (0, ''R1'')]
   \<and> framed (run example_platform
              [Message 0 ''R1'' True, Message 0 ''R2'' True, Local_connect 0,
               Local_data 0 ''a'', Poll_timer 0, Poll_timer 0, Poll_timer 0, Poll_timer 0]
              (established True))
     = [Ws_send_text 0 (JObj [(''type'', JStr ''login''), (''domain'', JStr ''d.example''),
                              (''secret'', JStr ''k''), (''device'', JStr ''default-app'')]),
        Ws_send_text 0 (JObj [(''type'', JStr ''start''), (''usage'', JStr ''private'')]),
        Ws_send_binary 0 ''aE'']"
  by (simp add: session_defs relay_defs forward_defs indexOf_def)

text \<open>
  When a tick of the loop falls between the 'end' and the 'close' of the local socket, the
  socket is ended but not yet destroyed, and \<open>ensureLocalConnection\<close>, which tests only
  \<open>destroyed\<close>, hands it out again: the second request is written to the ended socket and
  is never answered. In the first run nothing more happens and the third request stays in
  the queue; in the second the write fails with an 'error', and the loop goes on with the
  third request on a new socket.
\<close>

lemma end_close_race:
  "forwarded (run example_platform
     [Message 0 ''R1'' True, Message 0 ''R2'' True, Message 0 ''R3'' True, Local_connect 0,
      Local_data 0 ''a'', Local_end 0, Poll_timer 0, Local_close 0, Poll_timer 0, Poll_timer 0]
     (established False))
   = [Ws_send_text 0 (JObj [(''type'', JStr ''login''), (''domain'', JStr ''d.example''),
                            (''secret'', JStr ''k''), (''device'', JStr ''default-app'')]),
      Ws_send_text 0 (JObj [(''type'', JStr ''start''), (''usage'', JStr ''private'')]),
      Sock_write 0 ''R1'', Ws_send_binary 0 ''aE'', Sock_write 0 ''R2'']
   \<and> forwarded (run example_platform
     [Message 0 ''R1'' True, Message 0 ''R2'' True, Message 0 ''R3'' True, Local_connect 0,
      Local_data 0 ''a'', Local_end 0, Poll_timer 0, Local_error 0 ''EPIPE'', Local_close 0,
      Poll_timer 0, Local_connect 1, Local_data 1 ''c'', Poll_timer 0, Poll_timer 0]
     (established False))
   = [Ws_send_text 0 (JObj [(''type'', JStr ''login''), (''domain'', JStr ''d.example''),
                            (''secret'', JStr ''k''), (''device'', JStr ''default-app'')]),
      Ws_send_text 0 (JObj [(''type'', JStr ''start''), (''usage'', JStr ''private'')]),
      Sock_write 0 ''R1'', Ws_send_binary 0 ''aE'', Sock_write 0 ''R2'',
      Sock_write 1 ''R3'', Ws_send_binary 0 ''cE'']"
  by (simp add: session_defs relay_defs forward_defs indexOf_def forwarded_def)

end
